theory Spec2Isabelle
  imports Main "HOL-Library.Sublist"
begin

section \<open>Python strings\<close>

text \<open>
  A Python \<^verbatim>\<open>str\<close> is a sequence of Unicode code points, and \<^verbatim>\<open>len\<close>, slicing,
  \<^verbatim>\<open>replace\<close> and \<^verbatim>\<open>in\<close> all work on code points. The source of
  \<^verbatim>\<open>base_watcher.py\<close> contains a code point beyond Latin-1 (U+FF1F, in
  \<^verbatim>\<open>sanitize_filename\<close>), so a string is modelled as the list of its code points.
  \<open>py\<close> turns an ASCII literal of the source into that list.
\<close>

type_synonym pystr = "nat list"

definition py :: "string \<Rightarrow> pystr" where
  "py s = map of_char s"

text \<open>
  \<^verbatim>\<open>str.lower()\<close>. On an ASCII code point it maps \<^verbatim>\<open>A..Z\<close> to \<^verbatim>\<open>a..z\<close> and changes nothing
  else. On any other code point the result comes from the Unicode character database,
  which is not part of the repository, may have another length and, for the capital
  sigma, depends on the neighbouring characters. That table is a parameter: \<open>ul s i\<close>
  is the lower-case expansion of the non-ASCII code point at position \<open>i\<close> of \<open>s\<close>.
\<close>

type_synonym unicode_lower = "pystr \<Rightarrow> nat \<Rightarrow> pystr"

definition ascii_lower :: "nat \<Rightarrow> nat" where
  "ascii_lower c = (if 0x41 \<le> c \<and> c \<le> 0x5A then c + 0x20 else c)"

fun lower_from :: "unicode_lower \<Rightarrow> pystr \<Rightarrow> nat \<Rightarrow> pystr \<Rightarrow> pystr" where
  "lower_from ul s i [] = []"
| "lower_from ul s i (c # cs) =
     (if c < 0x80 then [ascii_lower c] else ul s i) @ lower_from ul s (Suc i) cs"

definition lower :: "unicode_lower \<Rightarrow> pystr \<Rightarrow> pystr" where
  "lower ul s = lower_from ul s 0 s"

text \<open>
  A stand-in table for evaluating the model on concrete inputs: it leaves every
  non-ASCII code point as it is. On ASCII text the table is never consulted.
\<close>

definition no_unicode_lower :: unicode_lower where
  "no_unicode_lower s i = [s ! i]"

text \<open>\<^verbatim>\<open>kw in s\<close>: \<open>kw\<close> occurs in \<open>s\<close> as a contiguous run.\<close>

fun str_in :: "pystr \<Rightarrow> pystr \<Rightarrow> bool" where
  "str_in kw [] = (kw = [])"
| "str_in kw (c # cs) = (prefix kw (c # cs) \<or> str_in kw cs)"

text \<open>\<^verbatim>\<open>s.replace(old, new)\<close> for one-character \<open>old\<close> and \<open>new\<close>.\<close>

definition replace_char :: "nat \<Rightarrow> nat \<Rightarrow> pystr \<Rightarrow> pystr" where
  "replace_char old new s = map (\<lambda>c. if c = old then new else c) s"


section \<open>BaseWatcher: priority and file names\<close>

subsection \<open>\<^verbatim>\<open>BaseWatcher.get_priority\<close>\<close>

definition critical_keywords :: "pystr list" where
  "critical_keywords =
     [py ''urgent'', py ''asap'', py ''emergency'', py ''help'', py ''critical'']"

definition high_keywords :: "pystr list" where
  "high_keywords =
     [py ''invoice'', py ''payment'', py ''deadline'', py ''due'', py ''important'']"

definition low_keywords :: "pystr list" where
  "low_keywords = [py ''newsletter'', py ''unsubscribe'', py ''promotion'', py ''offer'']"

definition get_priority :: "unicode_lower \<Rightarrow> pystr \<Rightarrow> pystr" where
  "get_priority ul content =
     (let content_lower = lower ul content in
      if list_ex (\<lambda>kw. str_in kw content_lower) critical_keywords then py ''critical''
      else if list_ex (\<lambda>kw. str_in kw content_lower) high_keywords then py ''high''
      else if list_ex (\<lambda>kw. str_in kw content_lower) low_keywords then py ''low''
      else py ''normal'')"

subsection \<open>\<^verbatim>\<open>BaseWatcher.sanitize_filename\<close>\<close>

text \<open>
  The characters of the source literal \<^verbatim>\<open>invalid_chars\<close>, in its order:
  \<^verbatim>\<open><\<close> (0x3C), \<^verbatim>\<open>>\<close> (0x3E), \<^verbatim>\<open>:\<close> (0x3A), the double quote (0x22), \<^verbatim>\<open>/\<close> (0x2F), the
  backslash (0x5C), \<^verbatim>\<open>|\<close> (0x7C), the FULLWIDTH QUESTION MARK U+FF1F (the bytes
  EF BC 9F of the source file) and \<^verbatim>\<open>*\<close> (0x2A). The ASCII question mark 0x3F is not
  among them. Each is replaced by the underscore 0x5F.
\<close>

definition invalid_chars :: pystr where
  "invalid_chars = [0x3C, 0x3E, 0x3A, 0x22, 0x2F, 0x5C, 0x7C, 0xFF1F, 0x2A]"

definition sanitize_filename :: "pystr \<Rightarrow> pystr" where
  "sanitize_filename name =
     (let name' = fold (\<lambda>ch n. replace_char ch 0x5F n) invalid_chars name
      in if length name' > 100 then take 100 name' else name')"


section \<open>Clock readings and path names\<close>

text \<open>
  A reading of \<^verbatim>\<open>datetime.now()\<close>. \<^verbatim>\<open>strftime('%Y%m%d_%H%M%S')\<close> prints the year in
  four digits and every other field in two, zero-padded, and drops the microseconds.
  (For a year below 1000 the C library decides the padding; \<^verbatim>\<open>now()\<close> never returns
  one.)
\<close>

record datetime =
  year :: nat
  month :: nat
  day :: nat
  hour :: nat
  minute :: nat
  second :: nat
  microsecond :: nat

definition valid_datetime :: "datetime \<Rightarrow> bool" where
  "valid_datetime d \<longleftrightarrow>
     1000 \<le> year d \<and> year d \<le> 9999 \<and> 1 \<le> month d \<and> month d \<le> 12 \<and>
     1 \<le> day d \<and> day d \<le> 31 \<and> hour d \<le> 23 \<and> minute d \<le> 59 \<and> second d \<le> 59 \<and>
     microsecond d \<le> 999999"

definition digit :: "nat \<Rightarrow> nat" where
  "digit n = 0x30 + n mod 10"

definition dec2 :: "nat \<Rightarrow> pystr" where
  "dec2 n = [digit (n div 10), digit n]"

definition dec4 :: "nat \<Rightarrow> pystr" where
  "dec4 n = [digit (n div 1000), digit (n div 100), digit (n div 10), digit n]"

definition strftime :: "datetime \<Rightarrow> pystr" where
  "strftime d =
     dec4 (year d) @ dec2 (month d) @ dec2 (day d) @ py ''_'' @
     dec2 (hour d) @ dec2 (minute d) @ dec2 (second d)"

text \<open>
  \<^verbatim>\<open>name.rfind(c)\<close>, and \<^verbatim>\<open>PurePath.stem\<close> and \<^verbatim>\<open>PurePath.suffix\<close> as pathlib (of
  CPython 3.12 and before) computes them from the last component \<^verbatim>\<open>name\<close>: with \<^verbatim>\<open>i = name.rfind('.')\<close>, the name splits at
  \<open>i\<close> when \<^verbatim>\<open>0 < i < len(name) - 1\<close>, and has no suffix otherwise.
\<close>

fun rfind :: "nat \<Rightarrow> pystr \<Rightarrow> nat option" where
  "rfind c [] = None"
| "rfind c (x # xs) =
     (case rfind c xs of
        Some i \<Rightarrow> Some (Suc i)
      | None \<Rightarrow> if x = c then Some 0 else None)"

definition stem :: "pystr \<Rightarrow> pystr" where
  "stem name =
     (case rfind 0x2E name of
        Some i \<Rightarrow> if 0 < i \<and> Suc i < length name then take i name else name
      | None \<Rightarrow> name)"

definition suffix_of :: "pystr \<Rightarrow> pystr" where
  "suffix_of name =
     (case rfind 0x2E name of
        Some i \<Rightarrow> if 0 < i \<and> Suc i < length name then drop i name else []
      | None \<Rightarrow> [])"

definition startswith_dot :: "pystr \<Rightarrow> bool" where
  "startswith_dot name = (case name of [] \<Rightarrow> False | c # _ \<Rightarrow> c = 0x2E)"


section \<open>The watchers' state and their effects\<close>

text \<open>
  What a watcher does to the outside is recorded in order: a log call with its level and
  the fixed part of its message, the copy of a payload, the write of an action file, the
  admission of an identifier to the in-memory set and the rewrite of the ledger file.
\<close>

datatype level = DEBUG | INFO | WARNING | ERROR

datatype effect =
    Log level string
  | CopyFile pystr
  | WriteFile pystr
  | LedgerAdd pystr
  | LedgerSave

text \<open>
  A file of \<^verbatim>\<open>Needs_Action\<close> is a copied payload (known by the hash of its bytes), an
  action file, or a file that a call opened for writing and did not finish: it exists,
  empty or cut short. Of the action file's Markdown the model keeps the fields of the
  front matter that come from the candidate; the fields printed from further clock
  readings and the human-readable size (a float) are left out.
\<close>

datatype doc = Payload pystr | ActionFile "(string \<times> pystr) list" | Incomplete

text \<open>
  The vault as one watcher sees it: the files of \<^verbatim>\<open>Needs_Action\<close> by name, the watcher's
  ledger file in \<^verbatim>\<open>Logs\<close> (\<open>None\<close> while it does not exist; the set of identifiers
  written, since the source writes a Python set in no fixed order), and the effects so
  far.
\<close>

record vault =
  needs_action :: "pystr \<rightharpoonup> doc"
  ledger_file :: "pystr set option"
  effects :: "effect list"

definition emit :: "effect \<Rightarrow> vault \<Rightarrow> vault" where
  "emit e v = v\<lparr>effects := effects v @ [e]\<rparr>"

text \<open>
  Which of the guarded I/O calls of one \<^verbatim>\<open>process_file\<close> or \<^verbatim>\<open>create_action_file\<close> call
  raise: \<^verbatim>\<open>shutil.copy2\<close>, \<^verbatim>\<open>write_text\<close> of the action file, and the rewrite of the
  ledger file. Each of the three opens its destination for writing (which creates or
  truncates it) before it writes, so for a call that raises the \<open>opened\<close> flag says
  whether it raised after that: the destination is then left empty or cut short. For the
  ledger file, \<open>save_partial\<close> holds the identifiers that reached the file before
  the exception. A call that raises records no effect. Logging is taken to succeed.
\<close>

record faults =
  copy_raises :: bool
  copy_opened :: bool
  write_raises :: bool
  write_opened :: bool
  save_raises :: bool
  save_opened :: bool
  save_partial :: "pystr set"

definition no_faults :: faults where
  "no_faults =
     \<lparr>copy_raises = False, copy_opened = False, write_raises = False, write_opened = False,
      save_raises = False, save_opened = False, save_partial = {}\<rparr>"

subsection \<open>\<^verbatim>\<open>BaseWatcher.__init__\<close>\<close>

record base_watcher =
  dry_run :: bool
  processed_ids :: "pystr set"

text \<open>
  \<^verbatim>\<open>os.getenv('DRY_RUN', 'true').lower() == 'true'\<close>; the argument is the value of the
  environment variable, \<open>None\<close> when it is unset.
\<close>

definition base_watcher_init :: "unicode_lower \<Rightarrow> pystr option \<Rightarrow> base_watcher" where
  "base_watcher_init ul DRY_RUN =
     \<lparr>dry_run = (lower ul (case DRY_RUN of None \<Rightarrow> py ''true'' | Some v \<Rightarrow> v) = py ''true''),
      processed_ids = {}\<rparr>"

definition log_action :: "bool \<Rightarrow> vault \<Rightarrow> vault" where
  "log_action dry v =
     (if dry then emit (Log INFO ''[DRY RUN] Would log'') v
      else emit (Log DEBUG ''Logged action'') v)"


section \<open>FilesystemWatcher\<close>

text \<open>
  An entry of the drop folder: its name, whether it is a regular file, the SHA-256 hex
  digest of its bytes (\<open>None\<close> when opening or reading it raises) and its size.
\<close>

record dropped_file =
  fname :: pystr
  is_file :: bool
  digest :: "pystr option"
  fsize :: nat

record filesystem_watcher = base_watcher +
  processed_files :: "pystr set"

text \<open>
  \<^verbatim>\<open>FilesystemWatcher.__init__\<close>; \<open>loaded\<close> is what \<^verbatim>\<open>_load_processed_files\<close> read back
  from the ledger file (the empty set when the file is missing or unreadable).
\<close>

definition filesystem_watcher_init ::
  "unicode_lower \<Rightarrow> pystr option \<Rightarrow> pystr set \<Rightarrow> filesystem_watcher" where
  "filesystem_watcher_init ul DRY_RUN loaded =
     (let b = base_watcher_init ul DRY_RUN in
      \<lparr>dry_run = dry_run b, processed_ids = processed_ids b, processed_files = loaded\<rparr>)"

definition save_processed_files :: "faults \<Rightarrow> filesystem_watcher \<Rightarrow> vault \<Rightarrow> vault" where
  "save_processed_files io w v =
     (if save_raises io then
        emit (Log ERROR ''Could not save processed hashes'')
          (if save_opened io
           then v\<lparr>ledger_file := Some (save_partial io \<inter> processed_files w)\<rparr> else v)
      else emit (Log DEBUG ''Saved processed file hashes'')
             (emit LedgerSave (v\<lparr>ledger_file := Some (processed_files w)\<rparr>)))"

definition extension_map :: "(pystr \<times> pystr \<times> pystr) list" where
  "extension_map =
     [(py ''.pdf'', py ''PDF Document'', py ''document''),
      (py ''.doc'', py ''Word Document'', py ''document''),
      (py ''.docx'', py ''Word Document'', py ''document''),
      (py ''.txt'', py ''Text File'', py ''document''),
      (py ''.md'', py ''Markdown File'', py ''document''),
      (py ''.xls'', py ''Excel Spreadsheet'', py ''spreadsheet''),
      (py ''.xlsx'', py ''Excel Spreadsheet'', py ''spreadsheet''),
      (py ''.csv'', py ''CSV File'', py ''spreadsheet''),
      (py ''.jpg'', py ''JPEG Image'', py ''image''),
      (py ''.jpeg'', py ''JPEG Image'', py ''image''),
      (py ''.png'', py ''PNG Image'', py ''image''),
      (py ''.gif'', py ''GIF Image'', py ''image''),
      (py ''.zip'', py ''ZIP Archive'', py ''archive''),
      (py ''.rar'', py ''RAR Archive'', py ''archive''),
      (py ''.7z'', py ''7-Zip Archive'', py ''archive''),
      (py ''.mp3'', py ''MP3 Audio'', py ''media''),
      (py ''.mp4'', py ''MP4 Video'', py ''media''),
      (py ''.wav'', py ''WAV Audio'', py ''media'')]"

record file_metadata =
  md_name :: pystr
  md_size :: nat
  md_extension :: pystr
  md_file_type :: pystr
  md_file_category :: pystr
  md_hash :: pystr

text \<open>\<^verbatim>\<open>_get_file_metadata\<close>; \<open>None\<close> when hashing the file raises.\<close>

definition get_file_metadata :: "unicode_lower \<Rightarrow> dropped_file \<Rightarrow> file_metadata option" where
  "get_file_metadata ul f =
     (let ext = lower ul (suffix_of (fname f));
          (file_type, file_category) =
            (case map_of extension_map ext of
               Some tc \<Rightarrow> tc
             | None \<Rightarrow> (py ''unknown'', py ''other''))
      in case digest f of
           None \<Rightarrow> None
         | Some h \<Rightarrow>
             Some \<lparr>md_name = fname f, md_size = fsize f, md_extension = ext,
                   md_file_type = file_type, md_file_category = file_category,
                   md_hash = h\<rparr>)"

text \<open>
  The name of the action file, lines 305 to 307 of \<^verbatim>\<open>filesystem_watcher.py\<close>: the label
  is the stem of the dropped file's name.
\<close>

definition file_action_filename :: "pystr \<Rightarrow> datetime \<Rightarrow> pystr" where
  "file_action_filename label now =
     py ''FILE_'' @ sanitize_filename label @ py ''_'' @ strftime now @ py ''.md''"

definition file_content :: "file_metadata \<Rightarrow> pystr \<Rightarrow> pystr \<Rightarrow> doc" where
  "file_content metadata priority file_hash =
     ActionFile
       [(''type'', py ''file_drop''),
        (''original_name'', md_name metadata),
        (''file_type'', md_file_type metadata),
        (''file_category'', md_file_category metadata),
        (''extension'', md_extension metadata),
        (''priority'', priority),
        (''status'', py ''pending''),
        (''file_hash'', file_hash)]"

text \<open>
  \<^verbatim>\<open>FilesystemWatcher.process_file\<close>. \<open>now\<close> is the clock reading that names the action
  file. The result is the destination path of the payload (the dropped file's name
  under \<^verbatim>\<open>Needs_Action\<close>) or \<open>None\<close>; every exception raised inside the \<^verbatim>\<open>try\<close> block
  ends in the handler that logs an error and returns \<open>None\<close>.
\<close>

definition process_file ::
  "unicode_lower \<Rightarrow> faults \<Rightarrow> datetime \<Rightarrow> dropped_file \<Rightarrow> filesystem_watcher \<times> vault \<Rightarrow>
   pystr option \<times> filesystem_watcher \<times> vault" where
  "process_file ul io now f s =
     (let (w, v) = s in
      case digest f of
        None \<Rightarrow> (None, w, emit (Log ERROR ''Error processing file'') v)
      | Some file_hash \<Rightarrow>
          if file_hash \<in> processed_files w then
            (None, w, emit (Log DEBUG ''File already processed'') v)
          else
            (case get_file_metadata ul f of
               None \<Rightarrow> (None, w, emit (Log ERROR ''Error processing file'') v)
             | Some metadata \<Rightarrow>
                 let priority =
                       get_priority ul (fname f @ py '' '' @ md_file_type metadata);
                     action_filename = file_action_filename (stem (fname f)) now;
                     content = file_content metadata priority file_hash;
                     dest_path = fname f
                 in if dry_run w then
                      (Some dest_path, w,
                       log_action (dry_run w)
                         (emit (Log INFO ''[DRY RUN] Would create'')
                           (emit (Log INFO ''[DRY RUN] Would copy'') v)))
                    else if copy_raises io then
                      (None, w,
                       emit (Log ERROR ''Error processing file'')
                         (if copy_opened io
                          then v\<lparr>needs_action := (needs_action v)(dest_path \<mapsto> Incomplete)\<rparr>
                          else v))
                    else
                      let v1 = emit (Log INFO ''Copied file'')
                                 (emit (CopyFile dest_path)
                                   (v\<lparr>needs_action :=
                                        (needs_action v)(dest_path \<mapsto> Payload file_hash)\<rparr>))
                      in if write_raises io then
                           (None, w,
                            emit (Log ERROR ''Error processing file'')
                              (if write_opened io
                               then v1\<lparr>needs_action :=
                                        (needs_action v1)(action_filename \<mapsto> Incomplete)\<rparr>
                               else v1))
                         else
                           let v2 = emit (Log INFO ''Created action file'')
                                      (emit (WriteFile action_filename)
                                        (v1\<lparr>needs_action :=
                                             (needs_action v1)(action_filename \<mapsto> content)\<rparr>));
                               w' = w\<lparr>processed_files := insert file_hash (processed_files w)\<rparr>;
                               v3 = save_processed_files io w' (emit (LedgerAdd file_hash) v2)
                           in (Some dest_path, w', log_action (dry_run w') v3)))"

text \<open>
  \<^verbatim>\<open>FilesystemWatcher.check_for_updates\<close>. The drop folder is the list of its entries in
  the order \<^verbatim>\<open>iterdir\<close> yields them, or \<open>None\<close> when \<^verbatim>\<open>iterdir\<close> raises. One \<^verbatim>\<open>try\<close>
  block encloses the whole loop: \<open>scan_drop_folder\<close> is \<open>None\<close> as soon as hashing
  one entry raises, and the handler then returns the empty list.
\<close>

fun scan_drop_folder :: "pystr set \<Rightarrow> dropped_file list \<Rightarrow> dropped_file list option" where
  "scan_drop_folder P [] = Some []"
| "scan_drop_folder P (f # fs) =
     (if is_file f \<and> \<not> startswith_dot (fname f) then
        (case digest f of
           None \<Rightarrow> None
         | Some file_hash \<Rightarrow>
             (case scan_drop_folder P fs of
                None \<Rightarrow> None
              | Some new_files \<Rightarrow>
                  Some (if file_hash \<notin> P then f # new_files else new_files)))
      else scan_drop_folder P fs)"

definition check_for_updates ::
  "dropped_file list option \<Rightarrow> filesystem_watcher \<times> vault \<Rightarrow>
   dropped_file list \<times> filesystem_watcher \<times> vault" where
  "check_for_updates drop_folder s =
     (let (w, v) = s in
      case drop_folder of
        None \<Rightarrow> ([], w, emit (Log ERROR ''Error checking drop folder'') v)
      | Some entries \<Rightarrow>
          (case scan_drop_folder (processed_files w) entries of
             None \<Rightarrow> ([], w, emit (Log ERROR ''Error checking drop folder'') v)
           | Some new_files \<Rightarrow> (new_files, w, v)))"

text \<open>
  One pass of the body of \<^verbatim>\<open>while True\<close> in \<^verbatim>\<open>BaseWatcher.run\<close>, which
  \<^verbatim>\<open>FilesystemWatcher.run\<close> enters in polling mode, up to the \<^verbatim>\<open>sleep\<close>.
  \<^verbatim>\<open>create_action_file\<close> is \<^verbatim>\<open>process_file\<close> and never raises, so the handler of the
  pass is never reached through it. \<open>io\<close> gives the faults met while the entry of that
  name is processed, and \<open>clock k\<close> is the clock reading for the \<open>k\<close>-th item.
\<close>

fun process_items ::
  "unicode_lower \<Rightarrow> (pystr \<Rightarrow> faults) \<Rightarrow> (nat \<Rightarrow> datetime) \<Rightarrow> nat \<Rightarrow> dropped_file list \<Rightarrow>
   filesystem_watcher \<times> vault \<Rightarrow> filesystem_watcher \<times> vault" where
  "process_items ul io clock k [] s = s"
| "process_items ul io clock k (item # items) s =
     (if dry_run (fst s) then
        process_items ul io clock (Suc k) items
          (fst s, emit (Log INFO ''[DRY RUN] Would process item'') (snd s))
      else
        (case process_file ul (io (fname item)) (clock k) item s of
           (None, w, v) \<Rightarrow> process_items ul io clock (Suc k) items (w, v)
         | (Some filepath, w, v) \<Rightarrow>
             process_items ul io clock (Suc k) items
               (w, emit (Log INFO ''Created action file'') v)))"

definition run_cycle ::
  "unicode_lower \<Rightarrow> (pystr \<Rightarrow> faults) \<Rightarrow> (nat \<Rightarrow> datetime) \<Rightarrow> dropped_file list option \<Rightarrow>
   filesystem_watcher \<times> vault \<Rightarrow> filesystem_watcher \<times> vault" where
  "run_cycle ul io clock drop_folder s =
     (case check_for_updates drop_folder s of
        (items, w, v) \<Rightarrow>
          if items \<noteq> [] then
            process_items ul io clock 0 items (w, emit (Log INFO ''Found new item(s)'') v)
          else (w, emit (Log DEBUG ''No new items found'') v))"


section \<open>GmailWatcher\<close>

text \<open>
  The Gmail API client is outside the repository. The watcher uses two of its calls:
  \<^verbatim>\<open>messages().list(userId, q, maxResults).execute()\<close>, here the identifiers of the
  message stubs it returns for a query and a limit, and
  \<^verbatim>\<open>messages().get(id, format='metadata').execute()\<close>, here the snippet and the header
  pairs of a message. \<open>None\<close> stands for a call that raises; an absent
  \<^verbatim>\<open>messages\<close> key reads as the empty list, as \<^verbatim>\<open>results.get('messages', [])\<close> does.
\<close>

record full_message =
  fm_snippet :: "pystr option"
  fm_headers :: "(pystr \<times> pystr) list option"

record gmail_service =
  list_messages :: "pystr \<Rightarrow> nat \<Rightarrow> pystr list option"
  get_message :: "pystr \<Rightarrow> full_message option"

text \<open>
  An item handed to \<^verbatim>\<open>create_action_file\<close>: a dictionary with the keys \<^verbatim>\<open>id\<close>,
  \<^verbatim>\<open>snippet\<close> and \<^verbatim>\<open>headers\<close>; \<open>None\<close> is a missing key.
\<close>

record gmail_item =
  item_id :: "pystr option"
  item_snippet :: "pystr option"
  item_headers :: "(pystr \<rightharpoonup> pystr) option"

record gmail_watcher = base_watcher +
  label_ids :: "pystr list"
  service :: "gmail_service option"

definition gmail_watcher_init ::
  "unicode_lower \<Rightarrow> pystr option \<Rightarrow> pystr set \<Rightarrow> pystr list option \<Rightarrow> gmail_watcher" where
  "gmail_watcher_init ul DRY_RUN loaded labels =
     (let b = base_watcher_init ul DRY_RUN in
      \<lparr>dry_run = dry_run b, processed_ids = loaded,
       label_ids = (case labels of
                      None \<Rightarrow> [py ''UNREAD'', py ''IMPORTANT'']
                    | Some [] \<Rightarrow> [py ''UNREAD'', py ''IMPORTANT'']
                    | Some ls \<Rightarrow> ls),
       service = None\<rparr>)"

definition gmail_save_processed_ids :: "faults \<Rightarrow> gmail_watcher \<Rightarrow> vault \<Rightarrow> vault" where
  "gmail_save_processed_ids io w v =
     (if save_raises io then
        emit (Log ERROR ''Could not save processed IDs'')
          (if save_opened io
           then v\<lparr>ledger_file := Some (save_partial io \<inter> processed_ids w)\<rparr> else v)
      else emit (Log DEBUG ''Saved processed message IDs'')
             (emit LedgerSave (v\<lparr>ledger_file := Some (processed_ids w)\<rparr>)))"

text \<open>
  The loop of \<^verbatim>\<open>GmailWatcher.check_for_updates\<close> over the listed stubs; \<open>None\<close> when
  fetching a message or reading its headers raises.
\<close>

fun fetch_new :: "gmail_service \<Rightarrow> pystr set \<Rightarrow> pystr list \<Rightarrow> gmail_item list option" where
  "fetch_new svc P [] = Some []"
| "fetch_new svc P (msg_id # messages) =
     (if msg_id \<notin> P then
        (case get_message svc msg_id of
           None \<Rightarrow> None
         | Some full_msg \<Rightarrow>
             (case fm_headers full_msg of
                None \<Rightarrow> None
              | Some hs \<Rightarrow>
                  (case fetch_new svc P messages of
                     None \<Rightarrow> None
                   | Some new_messages \<Rightarrow>
                       Some (\<lparr>item_id = Some msg_id,
                              item_snippet =
                                Some (case fm_snippet full_msg of None \<Rightarrow> [] | Some t \<Rightarrow> t),
                              item_headers = Some (map_of (rev hs))\<rparr> # new_messages))))
      else fetch_new svc P messages)"

text \<open>
  \<^verbatim>\<open>GmailWatcher.check_for_updates\<close>. \<open>authenticate\<close> is the service that
  \<^verbatim>\<open>_authenticate\<close> would build, \<open>None\<close> when it returns \<^verbatim>\<open>False\<close>; it is used only
  while the watcher has no service yet.
\<close>

definition gmail_check_for_updates ::
  "gmail_service option \<Rightarrow> gmail_watcher \<times> vault \<Rightarrow> gmail_item list \<times> gmail_watcher \<times> vault" where
  "gmail_check_for_updates authenticate s =
     (let (w, v) = s;
          w1 = (case service w of Some svc \<Rightarrow> w | None \<Rightarrow> w\<lparr>service := authenticate\<rparr>)
      in case service w1 of
           None \<Rightarrow> ([], w1, v)
         | Some svc \<Rightarrow>
             let query = py ''is:unread'' @
                   (if py ''IMPORTANT'' \<in> set (label_ids w1) then py '' is:important'' else [])
             in case list_messages svc query 10 of
                  None \<Rightarrow> ([], w1, emit (Log ERROR ''Error checking Gmail'') v)
                | Some messages \<Rightarrow>
                    (case fetch_new svc (processed_ids w1) messages of
                       None \<Rightarrow> ([], w1, emit (Log ERROR ''Error checking Gmail'') v)
                     | Some new_messages \<Rightarrow> (new_messages, w1, v)))"

text \<open>The name of the action file, lines 266 to 268 of \<^verbatim>\<open>gmail_watcher.py\<close>.\<close>

definition email_action_filename :: "pystr \<Rightarrow> datetime \<Rightarrow> pystr" where
  "email_action_filename subject now =
     py ''EMAIL_'' @ sanitize_filename (take 50 subject) @ py ''_'' @ strftime now @ py ''.md''"

definition header_get :: "(pystr \<rightharpoonup> pystr) \<Rightarrow> pystr \<Rightarrow> pystr \<Rightarrow> pystr" where
  "header_get headers k dflt = (case headers k of Some x \<Rightarrow> x | None \<Rightarrow> dflt)"

definition email_content ::
  "pystr \<Rightarrow> pystr \<Rightarrow> pystr \<Rightarrow> pystr \<Rightarrow> pystr \<Rightarrow> pystr \<Rightarrow> doc" where
  "email_content from_addr to_addr subject priority msg_id snippet =
     ActionFile
       [(''type'', py ''email''),
        (''from'', from_addr),
        (''to'', to_addr),
        (''subject'', subject),
        (''priority'', priority),
        (''status'', py ''pending''),
        (''message_id'', msg_id),
        (''content'', snippet)]"

text \<open>
  \<^verbatim>\<open>GmailWatcher.create_action_file\<close>. The three dictionary reads \<^verbatim>\<open>item['headers']\<close>,
  \<^verbatim>\<open>item['snippet']\<close> and \<^verbatim>\<open>item['id']\<close> are evaluated before anything is written, and a
  missing key raises into the handler.
\<close>

definition gmail_create_action_file ::
  "unicode_lower \<Rightarrow> faults \<Rightarrow> datetime \<Rightarrow> gmail_item \<Rightarrow> gmail_watcher \<times> vault \<Rightarrow>
   pystr option \<times> gmail_watcher \<times> vault" where
  "gmail_create_action_file ul io now item s =
     (let (w, v) = s in
      case (item_headers item, item_snippet item, item_id item) of
        (Some headers, Some snippet, Some msg_id) \<Rightarrow>
          let from_addr = header_get headers (py ''From'') (py ''Unknown'');
              subject = header_get headers (py ''Subject'') (py ''No Subject'');
              to_addr = header_get headers (py ''To'') [];
              priority = get_priority ul (subject @ py '' '' @ snippet);
              filename = email_action_filename subject now;
              content = email_content from_addr to_addr subject priority msg_id snippet
          in if dry_run w then
               (Some filename, w,
                log_action (dry_run w) (emit (Log INFO ''[DRY RUN] Would create'') v))
             else if write_raises io then
               (None, w,
                emit (Log ERROR ''Error creating action file'')
                  (if write_opened io
                   then v\<lparr>needs_action := (needs_action v)(filename \<mapsto> Incomplete)\<rparr>
                   else v))
             else
               let v1 = emit (WriteFile filename)
                          (v\<lparr>needs_action := (needs_action v)(filename \<mapsto> content)\<rparr>);
                   w' = w\<lparr>processed_ids := insert msg_id (processed_ids w)\<rparr>;
                   v2 = gmail_save_processed_ids io w' (emit (LedgerAdd msg_id) v1);
                   v3 = emit (Log INFO ''Created action file'') v2
               in (Some filename, w', log_action (dry_run w') v3)
      | _ \<Rightarrow> (None, w, emit (Log ERROR ''Error creating action file'') v))"


section \<open>Orchestrator\<close>

text \<open>
  The orchestrator's fields that the supervisor and the loop read, and what it does to
  the outside, in order: log calls, the launch of a watcher script with the process
  identifier of the handle, the call of \<^verbatim>\<open>subprocess.run\<close> on the agent at an
  iteration, the write of the loop's state file at an iteration, its final write, the
  write of the state file of \<^verbatim>\<open>trigger_claude_processing\<close>, and the pause between
  iterations. Writing the state file and logging are taken to succeed.
  A run of consecutive log calls that print one banner (a rule, a line, a rule) is
  recorded as one log effect.
\<close>

record orchestrator =
  max_iterations :: int
  orch_dry_run :: bool
  processes :: "pystr \<rightharpoonup> nat"

datatype orch_effect =
    OLog level string
  | Popen pystr nat
  | AgentRun nat
  | StateWrite nat bool
  | FinalStateWrite nat bool
  | ClaudeStateWrite
  | Sleep

subsection \<open>\<^verbatim>\<open>Orchestrator.start_watcher\<close>\<close>

definition watcher_scripts :: "(pystr \<times> pystr) list" where
  "watcher_scripts =
     [(py ''gmail'', py ''gmail_watcher.py''), (py ''filesystem'', py ''filesystem_watcher.py'')]"

text \<open>
  \<open>script_exists\<close> answers \<^verbatim>\<open>script_path.exists()\<close>, and \<open>popen\<close> is
  \<^verbatim>\<open>subprocess.Popen\<close> on the script: the new process's identifier, or \<open>None\<close> when it
  raises.
\<close>

definition start_watcher ::
  "(pystr \<Rightarrow> bool) \<Rightarrow> (pystr \<Rightarrow> nat option) \<Rightarrow> pystr \<Rightarrow> orchestrator \<times> orch_effect list \<Rightarrow>
   bool \<times> orchestrator \<times> orch_effect list" where
  "start_watcher script_exists popen watcher_name s =
     (let (orc, tr) = s in
      case map_of watcher_scripts watcher_name of
        None \<Rightarrow> (False, orc, tr @ [OLog ERROR ''Unknown watcher''])
      | Some script \<Rightarrow>
          if \<not> script_exists script then
            (False, orc, tr @ [OLog ERROR ''Watcher script not found''])
          else
            (case popen script of
               None \<Rightarrow> (False, orc, tr @ [OLog ERROR ''Failed to start watcher''])
             | Some proc \<Rightarrow>
                 (True, orc\<lparr>processes := (processes orc)(watcher_name \<mapsto> proc)\<rparr>,
                  tr @ [Popen script proc, OLog INFO ''Started watcher''])))"

subsection \<open>\<^verbatim>\<open>Orchestrator.trigger_claude_processing\<close>\<close>

text \<open>
  What \<^verbatim>\<open>subprocess.run(['claude', '--version'], timeout=10)\<close> does: it returns with a
  return code, or raises \<^verbatim>\<open>FileNotFoundError\<close> because there is no \<^verbatim>\<open>claude\<close>
  executable, or raises \<^verbatim>\<open>TimeoutExpired\<close>. These are the outcomes the method
  handles.
\<close>

datatype version_check = VersionReturned int | VersionNotFound | VersionTimeout

text \<open>
  The method checks that the agent is there before anything else and returns \<^verbatim>\<open>False\<close>
  at once when it is not. Past the check it writes its state file (outside dry-run
  mode), logs the command it would run, and returns \<^verbatim>\<open>True\<close>; the call of the agent
  itself is commented out in the source.
\<close>

definition trigger_claude_processing ::
  "orchestrator \<Rightarrow> version_check \<Rightarrow> orch_effect list \<Rightarrow> bool \<times> orch_effect list" where
  "trigger_claude_processing orc version tr =
     (case version of
        VersionNotFound \<Rightarrow> (False, tr @ [OLog ERROR ''Claude Code not found''])
      | VersionTimeout \<Rightarrow> (False, tr @ [OLog ERROR ''Claude Code version check timed out''])
      | VersionReturned returncode \<Rightarrow>
          if returncode \<noteq> 0 then
            (False, tr @ [OLog ERROR ''Claude Code not available or not responding''])
          else
            (True,
             tr @ (if orch_dry_run orc then [] else [ClaudeStateWrite]) @
               [OLog INFO ''Triggering Claude Code processing...'', OLog INFO ''State file'',
                OLog INFO ''Would run'']))"

subsection \<open>\<^verbatim>\<open>Orchestrator.ralph_loop\<close>\<close>

text \<open>
  What \<^verbatim>\<open>subprocess.run\<close> on the agent does at an iteration: it returns with the
  captured output (\<^verbatim>\<open>stdout + stderr\<close>), or raises \<^verbatim>\<open>TimeoutExpired\<close>, or raises
  \<^verbatim>\<open>FileNotFoundError\<close> because there is no \<^verbatim>\<open>claude\<close> executable, or raises another
  exception; the last two carry the exception's text.
\<close>

datatype agent_result =
    Returned pystr
  | TimeoutExpired
  | FileNotFoundError pystr
  | OtherException pystr

record ralph_state =
  rs_iteration :: nat
  last_output :: pystr
  completed :: bool

definition last_1000 :: "pystr \<Rightarrow> pystr" where
  "last_1000 output =
     (if length output > 1000 then drop (length output - 1000) output else output)"

definition promise_tag :: "pystr \<Rightarrow> pystr" where
  "promise_tag completion_promise = py ''<promise>'' @ completion_promise @ py ''</promise>''"

text \<open>
  The \<^verbatim>\<open>while iteration < self.max_iterations\<close> loop. \<open>count i\<close> is what
  \<^verbatim>\<open>_count_files(self.needs_action)\<close> returns at iteration \<open>i\<close> and \<open>agent i\<close> what
  the agent does when it is run at iteration \<open>i\<close>, on the prompt built there. The
  result is the final value of the local \<^verbatim>\<open>iteration\<close>, the \<^verbatim>\<open>state\<close> dictionary and the
  effects.
\<close>

function ralph_while ::
  "orchestrator \<Rightarrow> pystr \<Rightarrow> bool \<Rightarrow> (nat \<Rightarrow> nat) \<Rightarrow> (nat \<Rightarrow> agent_result) \<Rightarrow> nat \<Rightarrow>
   ralph_state \<times> orch_effect list \<Rightarrow> nat \<times> ralph_state \<times> orch_effect list" where
  "ralph_while orc completion_promise check_file_movement count agent iteration s =
     (if int iteration < max_iterations orc then
        let iteration' = iteration + 1;
            st = (fst s)\<lparr>rs_iteration := iteration'\<rparr>;
            tr = snd s @ [OLog INFO ''Iteration''];
            needs_action_count = count iteration'
        in if check_file_movement \<and> needs_action_count = 0 then
             (iteration', st\<lparr>completed := True\<rparr>,
              tr @ [OLog INFO ''All files processed - completion detected!''])
           else if orch_dry_run orc then
             ralph_while orc completion_promise check_file_movement count agent iteration'
               (st\<lparr>last_output := py ''Dry run - no output''\<rparr>,
                tr @ [OLog INFO ''Running'', OLog INFO ''[DRY RUN] Would run Claude Code'',
                      Sleep])
           else
             (case agent iteration' of
                Returned output \<Rightarrow>
                  if str_in (promise_tag completion_promise) output then
                    (iteration', st\<lparr>last_output := last_1000 output, completed := True\<rparr>,
                     tr @ [OLog INFO ''Running'', AgentRun iteration',
                           OLog INFO ''Completion promise detected!''])
                  else
                    ralph_while orc completion_promise check_file_movement count agent
                      iteration'
                      (st\<lparr>last_output := last_1000 output\<rparr>,
                       tr @ [OLog INFO ''Running'', AgentRun iteration',
                             StateWrite iteration' False, Sleep])
              | TimeoutExpired \<Rightarrow>
                  ralph_while orc completion_promise check_file_movement count agent
                    iteration'
                    (st\<lparr>last_output := py ''Timeout - retrying''\<rparr>,
                     tr @ [OLog INFO ''Running'', AgentRun iteration',
                           OLog WARNING ''Claude Code timed out, retrying...'',
                           StateWrite iteration' False, Sleep])
              | FileNotFoundError e \<Rightarrow>
                  ralph_while orc completion_promise check_file_movement count agent
                    iteration'
                    (st\<lparr>last_output := py ''Error: '' @ e\<rparr>,
                     tr @ [OLog INFO ''Running'', AgentRun iteration',
                           OLog ERROR ''Error running Claude Code'',
                           StateWrite iteration' False, Sleep])
              | OtherException e \<Rightarrow>
                  ralph_while orc completion_promise check_file_movement count agent
                    iteration'
                    (st\<lparr>last_output := py ''Error: '' @ e\<rparr>,
                     tr @ [OLog INFO ''Running'', AgentRun iteration',
                           OLog ERROR ''Error running Claude Code'',
                           StateWrite iteration' False, Sleep]))
      else (iteration, fst s, snd s))"
  by pat_completeness auto
termination
  by (relation "measure (\<lambda>(orc, p, c, cnt, ag, iteration, s). nat (max_iterations orc - int iteration))")
     auto

declare ralph_while.simps [simp del]

definition ralph_loop ::
  "orchestrator \<Rightarrow> pystr \<Rightarrow> bool \<Rightarrow> (nat \<Rightarrow> nat) \<Rightarrow> (nat \<Rightarrow> agent_result) \<Rightarrow>
   nat \<times> ralph_state \<times> orch_effect list" where
  "ralph_loop orc completion_promise check_file_movement count agent =
     (case ralph_while orc completion_promise check_file_movement count agent 0
             (\<lparr>rs_iteration = 0, last_output = [], completed = False\<rparr>,
              [OLog INFO ''Starting Ralph Wiggum loop...'']) of
        (iteration, st, tr) \<Rightarrow>
          (iteration, st,
           tr @ [if completed st then OLog INFO ''Ralph loop completed successfully!''
                 else OLog WARNING ''Ralph loop ended (max reached)'']
              @ (if orch_dry_run orc then [] else [FinalStateWrite iteration (completed st)])))"

text \<open>The number of times the agent was run, and the terminal states of the loop.\<close>

definition agent_invocations :: "orch_effect list \<Rightarrow> nat" where
  "agent_invocations tr = length (filter (\<lambda>e. case e of AgentRun _ \<Rightarrow> True | _ \<Rightarrow> False) tr)"


section \<open>Observing a run\<close>

text \<open>
  The effects that change persistent state (everything but log calls), the number of
  action files written, and the number of errors logged by the handler of
  \<^verbatim>\<open>process_file\<close>.
\<close>

definition persistent_effects :: "effect list \<Rightarrow> effect list" where
  "persistent_effects es = filter (\<lambda>e. case e of Log _ _ \<Rightarrow> False | _ \<Rightarrow> True) es"

definition record_writes :: "effect list \<Rightarrow> nat" where
  "record_writes es = length (filter (\<lambda>e. case e of WriteFile _ \<Rightarrow> True | _ \<Rightarrow> False) es)"

definition processing_errors :: "effect list \<Rightarrow> nat" where
  "processing_errors es = length (filter (\<lambda>e. e = Log ERROR ''Error processing file'') es)"

text \<open>An admission to the ledger: the identifier enters the set, or the file is rewritten.\<close>

definition is_admission :: "effect \<Rightarrow> bool" where
  "is_admission e = (case e of LedgerAdd _ \<Rightarrow> True | LedgerSave \<Rightarrow> True | _ \<Rightarrow> False)"

text \<open>
  The terminal states of the orchestration loop as the specification names them: the
  loop ends \<open>Completed\<close> when \<^verbatim>\<open>state['completed']\<close> is set and \<open>Exhausted\<close> otherwise.
\<close>

datatype loop_outcome = Completed | Exhausted

definition outcome :: "ralph_state \<Rightarrow> loop_outcome" where
  "outcome st = (if completed st then Completed else Exhausted)"


section \<open>Properties of the string functions\<close>

lemma str_in_iff: "str_in kw s \<longleftrightarrow> (\<exists>p q. s = p @ kw @ q)"
proof (induction s)
  case Nil
  then show ?case by auto
next
  case (Cons c cs)
  show ?case
  proof
    assume "str_in kw (c # cs)"
    then consider "prefix kw (c # cs)" | "str_in kw cs" by auto
    then show "\<exists>p q. c # cs = p @ kw @ q"
    proof cases
      case 1
      then obtain q where "c # cs = kw @ q" by (auto simp: prefix_def)
      then have "c # cs = [] @ kw @ q" by simp
      then show ?thesis by blast
    next
      case 2
      with Cons.IH obtain p q where "cs = p @ kw @ q" by blast
      then have "c # cs = (c # p) @ kw @ q" by simp
      then show ?thesis by blast
    qed
  next
    assume "\<exists>p q. c # cs = p @ kw @ q"
    then obtain p q where pq: "c # cs = p @ kw @ q" by blast
    show "str_in kw (c # cs)"
    proof (cases p)
      case Nil
      with pq have "prefix kw (c # cs)" by (simp add: prefix_def)
      then show ?thesis by simp
    next
      case (Cons a p')
      with pq have "cs = p' @ kw @ q" by simp
      with Cons.IH have "str_in kw cs" by blast
      then show ?thesis by simp
    qed
  qed
qed

lemma lower_from_ascii:
  "\<forall>c\<in>set cs. c < 0x80 \<Longrightarrow> lower_from ul s i cs = map ascii_lower cs"
  by (induction cs arbitrary: i) simp_all

lemma lower_ascii: "\<forall>c\<in>set s. c < 0x80 \<Longrightarrow> lower ul s = map ascii_lower s"
  by (simp add: lower_def lower_from_ascii)

lemma tiers_distinct:
  "py ''critical'' \<noteq> py ''high''" "py ''critical'' \<noteq> py ''low''"
  "py ''critical'' \<noteq> py ''normal''" "py ''high'' \<noteq> py ''low''"
  "py ''high'' \<noteq> py ''normal''" "py ''low'' \<noteq> py ''normal''"
  by (simp_all add: py_def)

lemma list_ex_str_in:
  "list_ex (\<lambda>kw. str_in kw s) kws \<longleftrightarrow> (\<exists>kw\<in>set kws. \<exists>p q. s = p @ kw @ q)"
  by (simp add: list_ex_iff str_in_iff)

lemma replace_char_length: "length (replace_char old new s) = length s"
  by (simp add: replace_char_def)

lemma replace_char_set:
  "set (replace_char old new s) \<subseteq> (set s - {old}) \<union> {new}"
  by (auto simp: replace_char_def)

text \<open>
  What \<^verbatim>\<open>sanitize_filename\<close> does guarantee: at most 100 code points, and none of the
  nine code points of \<^verbatim>\<open>invalid_chars\<close>.
\<close>

lemma sanitize_filename_length: "length (sanitize_filename name) \<le> 100"
  by (simp add: sanitize_filename_def Let_def)

lemma replace_char_absent:
  "c \<noteq> new \<Longrightarrow> c = old \<or> c \<notin> set s \<Longrightarrow> c \<notin> set (replace_char old new s)"
  by (auto simp: replace_char_def)

lemma fold_replace_absent:
  "c \<noteq> new \<Longrightarrow> c \<in> set chs \<or> c \<notin> set s \<Longrightarrow>
   c \<notin> set (fold (\<lambda>ch n. replace_char ch new n) chs s)"
proof (induction chs arbitrary: s)
  case Nil
  then show ?case by simp
next
  case (Cons ch chs)
  show ?case
  proof (cases "c \<in> set chs")
    case True
    with Cons.IH [OF Cons.prems(1)] show ?thesis by simp
  next
    case False
    with Cons.prems have "c = ch \<or> c \<notin> set s" by auto
    with Cons.prems(1) have "c \<notin> set (replace_char ch new s)"
      by (rule replace_char_absent)
    with Cons.IH [OF Cons.prems(1)] show ?thesis by simp
  qed
qed

lemma invalid_chars_not_underscore: "c \<in> set invalid_chars \<Longrightarrow> c \<noteq> 0x5F"
  by (auto simp: invalid_chars_def)

lemma sanitize_filename_removes:
  "c \<in> set invalid_chars \<Longrightarrow> c \<notin> set (sanitize_filename name)"
proof -
  assume c: "c \<in> set invalid_chars"
  let ?n = "fold (\<lambda>ch n. replace_char ch 0x5F n) invalid_chars name"
  have "c \<notin> set ?n"
    using invalid_chars_not_underscore [OF c] c by (intro fold_replace_absent) simp_all
  moreover have "set (sanitize_filename name) \<subseteq> set ?n"
    unfolding sanitize_filename_def Let_def by (auto dest: in_set_takeD)
  ultimately show ?thesis by blast
qed


section \<open>Basic facts about effects\<close>

lemma no_faults_simps [simp]:
  "\<not> copy_raises no_faults" "\<not> copy_opened no_faults" "\<not> write_raises no_faults"
  "\<not> write_opened no_faults" "\<not> save_raises no_faults" "\<not> save_opened no_faults"
  by (simp_all add: no_faults_def)

lemma effects_emit [simp]: "effects (emit e v) = effects v @ [e]"
  by (simp add: emit_def)

lemma emit_log_fields [simp]:
  "needs_action (emit e v) = needs_action v" "ledger_file (emit e v) = ledger_file v"
  by (simp_all add: emit_def)

lemma persistent_effects_simps [simp]:
  "persistent_effects [] = []"
  "persistent_effects (a @ b) = persistent_effects a @ persistent_effects b"
  "persistent_effects (Log l m # es) = persistent_effects es"
  by (simp_all add: persistent_effects_def)

lemma effects_log_action:
  "effects (log_action d v) =
     effects v @ [if d then Log INFO ''[DRY RUN] Would log'' else Log DEBUG ''Logged action'']"
  by (simp add: log_action_def)

lemma log_action_fields [simp]:
  "needs_action (log_action d v) = needs_action v" "ledger_file (log_action d v) = ledger_file v"
  "persistent_effects (effects (log_action d v)) = persistent_effects (effects v)"
  by (simp_all add: log_action_def)

lemma record_writes_simps [simp]:
  "record_writes [] = 0"
  "record_writes (a @ b) = record_writes a + record_writes b"
  "record_writes (WriteFile n # es) = Suc (record_writes es)"
  "record_writes (Log l m # es) = record_writes es"
  "record_writes (CopyFile n # es) = record_writes es"
  "record_writes (LedgerAdd n # es) = record_writes es"
  "record_writes (LedgerSave # es) = record_writes es"
  by (simp_all add: record_writes_def)

lemma processing_errors_simps [simp]:
  "processing_errors [] = 0"
  "processing_errors (a @ b) = processing_errors a + processing_errors b"
  "processing_errors (Log ERROR ''Error processing file'' # es) = Suc (processing_errors es)"
  "processing_errors (WriteFile n # es) = processing_errors es"
  "processing_errors (CopyFile n # es) = processing_errors es"
  "processing_errors (LedgerAdd n # es) = processing_errors es"
  "processing_errors (LedgerSave # es) = processing_errors es"
  "l \<noteq> ERROR \<Longrightarrow> processing_errors (Log l m # es) = processing_errors es"
  "processing_errors (Log ERROR ''Could not save processed hashes'' # es) = processing_errors es"
  "processing_errors (Log ERROR ''Error checking drop folder'' # es) = processing_errors es"
  by (simp_all add: processing_errors_def)

lemma agent_invocations_append [simp]:
  "agent_invocations (a @ b) = agent_invocations a + agent_invocations b"
  by (simp add: agent_invocations_def)

lemma agent_invocations_simps [simp]:
  "agent_invocations [] = 0"
  "agent_invocations (AgentRun i # es) = Suc (agent_invocations es)"
  "agent_invocations (OLog l m # es) = agent_invocations es"
  "agent_invocations (StateWrite i b # es) = agent_invocations es"
  "agent_invocations (FinalStateWrite i b # es) = agent_invocations es"
  "agent_invocations (ClaudeStateWrite # es) = agent_invocations es"
  "agent_invocations (Sleep # es) = agent_invocations es"
  "agent_invocations (Popen s n # es) = agent_invocations es"
  by (simp_all add: agent_invocations_def)


section \<open>The priority classifier\<close>

lemma get_priority_examples:
  "get_priority ul (py ''URGENT: invoice due'') = py ''critical''"
  "get_priority ul (py ''Please unsubscribe from our newsletter'') = py ''low''"
  "get_priority ul (py ''Team lunch Friday'') = py ''normal''"
  by (simp_all add: get_priority_def lower_def py_def ascii_lower_def
      critical_keywords_def high_keywords_def low_keywords_def)

lemma get_priority_range:
  "get_priority ul t \<in> {py ''critical'', py ''high'', py ''normal'', py ''low''}"
  by (simp add: get_priority_def Let_def)

lemma get_priority_ascii_case:
  assumes "\<forall>c\<in>set t. c < 0x80" and "\<forall>c\<in>set t'. c < 0x80"
    and "map ascii_lower t = map ascii_lower t'"
  shows "get_priority ul t = get_priority ul t'"
  using assms by (simp add: get_priority_def lower_ascii)

text \<open>
  C2. For every text, \<^verbatim>\<open>get_priority\<close> returns one of the four tiers. The tier is
  \<^verbatim>\<open>critical\<close> exactly when a critical keyword occurs in the lower-cased text, \<^verbatim>\<open>high\<close>
  exactly when no critical keyword but a high keyword occurs, \<^verbatim>\<open>low\<close> exactly when
  neither a critical nor a high keyword but a low keyword occurs, and \<^verbatim>\<open>normal\<close> exactly
  when no keyword occurs. Two ASCII texts that differ only in the case of their letters
  get the same tier. The three texts of the specification get \<^verbatim>\<open>critical\<close>, \<^verbatim>\<open>low\<close> and
  \<^verbatim>\<open>normal\<close>. The result is a function of the text (and of the platform's Unicode
  table) alone: the model has no other argument and no state.
\<close>

theorem get_priority_classifier:
  "get_priority ul t \<in> {py ''critical'', py ''high'', py ''normal'', py ''low''}
   \<and> (get_priority ul t = py ''critical'' \<longleftrightarrow>
        (\<exists>kw\<in>set critical_keywords. \<exists>p q. lower ul t = p @ kw @ q))
   \<and> (get_priority ul t = py ''high'' \<longleftrightarrow>
        \<not> (\<exists>kw\<in>set critical_keywords. \<exists>p q. lower ul t = p @ kw @ q)
        \<and> (\<exists>kw\<in>set high_keywords. \<exists>p q. lower ul t = p @ kw @ q))
   \<and> (get_priority ul t = py ''low'' \<longleftrightarrow>
        \<not> (\<exists>kw\<in>set critical_keywords. \<exists>p q. lower ul t = p @ kw @ q)
        \<and> \<not> (\<exists>kw\<in>set high_keywords. \<exists>p q. lower ul t = p @ kw @ q)
        \<and> (\<exists>kw\<in>set low_keywords. \<exists>p q. lower ul t = p @ kw @ q))
   \<and> (get_priority ul t = py ''normal'' \<longleftrightarrow>
        \<not> (\<exists>kw\<in>set critical_keywords. \<exists>p q. lower ul t = p @ kw @ q)
        \<and> \<not> (\<exists>kw\<in>set high_keywords. \<exists>p q. lower ul t = p @ kw @ q)
        \<and> \<not> (\<exists>kw\<in>set low_keywords. \<exists>p q. lower ul t = p @ kw @ q))
   \<and> ((\<forall>c\<in>set t. c < 0x80) \<and> (\<forall>c\<in>set t'. c < 0x80)
        \<and> map ascii_lower t = map ascii_lower t'
        \<longrightarrow> get_priority ul t = get_priority ul t')
   \<and> get_priority ul (py ''URGENT: invoice due'') = py ''critical''
   \<and> get_priority ul (py ''Please unsubscribe from our newsletter'') = py ''low''
   \<and> get_priority ul (py ''Team lunch Friday'') = py ''normal''"
proof -
  let ?c = "\<exists>kw\<in>set critical_keywords. \<exists>p q. lower ul t = p @ kw @ q"
  let ?h = "\<exists>kw\<in>set high_keywords. \<exists>p q. lower ul t = p @ kw @ q"
  let ?l = "\<exists>kw\<in>set low_keywords. \<exists>p q. lower ul t = p @ kw @ q"
  have eq: "get_priority ul t =
      (if ?c then py ''critical'' else if ?h then py ''high''
       else if ?l then py ''low'' else py ''normal'')"
    unfolding get_priority_def Let_def list_ex_str_in ..
  have c: "get_priority ul t = py ''critical'' \<longleftrightarrow> ?c"
    unfolding eq using tiers_distinct by auto
  have h: "get_priority ul t = py ''high'' \<longleftrightarrow> \<not> ?c \<and> ?h"
    unfolding eq using tiers_distinct by auto
  have l: "get_priority ul t = py ''low'' \<longleftrightarrow> \<not> ?c \<and> \<not> ?h \<and> ?l"
    unfolding eq using tiers_distinct by auto
  have n: "get_priority ul t = py ''normal'' \<longleftrightarrow> \<not> ?c \<and> \<not> ?h \<and> \<not> ?l"
    unfolding eq using tiers_distinct by auto
  have a: "(\<forall>c\<in>set t. c < 0x80) \<and> (\<forall>c\<in>set t'. c < 0x80)
        \<and> map ascii_lower t = map ascii_lower t'
        \<longrightarrow> get_priority ul t = get_priority ul t'"
    using get_priority_ascii_case by blast
  from get_priority_range c h l n a get_priority_examples show ?thesis
    by (intro conjI)
qed

theorem get_priority_classifier_witness:
  "get_priority no_unicode_lower (py ''Payment DUE'') = py ''high''
   \<and> get_priority no_unicode_lower (py ''Payment DUE'')
       = get_priority no_unicode_lower (py ''payment due'')"
proof -
  have t: "\<forall>c\<in>set (py ''Payment DUE''). c < 0x80" by (simp add: py_def)
  have t': "\<forall>c\<in>set (py ''payment due''). c < 0x80" by (simp add: py_def)
  have m: "map ascii_lower (py ''Payment DUE'') = map ascii_lower (py ''payment due'')"
    by (simp add: py_def ascii_lower_def)
  have k: "py ''payment'' \<in> set high_keywords" by (simp add: high_keywords_def)
  have v: "get_priority no_unicode_lower (py ''Payment DUE'') = py ''high''"
    by (simp add: get_priority_def lower_def py_def ascii_lower_def
        critical_keywords_def high_keywords_def low_keywords_def)
  from get_priority_classifier
         [of no_unicode_lower "py ''Payment DUE''" "py ''payment due''"] t t' m v
  show ?thesis by blast
qed

text \<open>
  C8. \<^verbatim>\<open>sanitize_filename\<close> leaves the ASCII question mark in place: the label
  \<^verbatim>\<open>what?\<close> comes back unchanged, with the code point 0x3F in it.
\<close>

theorem sanitize_filename_question_mark:
  "sanitize_filename (py ''what?'') = py ''what?''
   \<and> 0x3F \<in> set (sanitize_filename (py ''what?''))"
  by (simp add: sanitize_filename_def invalid_chars_def replace_char_def py_def)

section \<open>The supervisor\<close>

lemma start_watcher_ignores_table:
  "fst (start_watcher se po n (orc, tr)) = fst (start_watcher se po n (orc\<lparr>processes := Map.empty\<rparr>, tr))
   \<and> snd (snd (start_watcher se po n (orc, tr)))
       = snd (snd (start_watcher se po n (orc\<lparr>processes := Map.empty\<rparr>, tr)))"
  by (simp add: start_watcher_def split: option.splits)

text \<open>
  C6, as stated, fails: \<^verbatim>\<open>start_watcher\<close> never looks the name up in
  \<^verbatim>\<open>self.processes\<close>. With \<^verbatim>\<open>gmail\<close> recorded as running under the handle 100, starting
  \<^verbatim>\<open>gmail\<close> again returns \<^verbatim>\<open>True\<close>, launches the script a second time and replaces the
  recorded handle by the new one.
\<close>

theorem start_watcher_running_counterexample:
  "py ''gmail'' \<in> dom (processes \<lparr>max_iterations = 10, orch_dry_run = False,
                                    processes = [py ''gmail'' \<mapsto> 100]\<rparr>)
   \<and> start_watcher (\<lambda>script. True) (\<lambda>script. Some 200) (py ''gmail'')
        (\<lparr>max_iterations = 10, orch_dry_run = False, processes = [py ''gmail'' \<mapsto> 100]\<rparr>, [])
      = (True,
         \<lparr>max_iterations = 10, orch_dry_run = False, processes = [py ''gmail'' \<mapsto> 200]\<rparr>,
         [Popen (py ''gmail_watcher.py'') 200, OLog INFO ''Started watcher''])"
  by (simp add: start_watcher_def watcher_scripts_def py_def)

text \<open>
  C6, amended. For a name already recorded as running: when the name is one of the two
  known watchers, its script exists and \<^verbatim>\<open>Popen\<close> succeeds, \<^verbatim>\<open>start_watcher\<close> launches
  the script again, records the new handle in place of the old one and returns \<^verbatim>\<open>True\<close>.
  It returns \<^verbatim>\<open>False\<close> exactly when the name is unknown, the script is missing or
  \<^verbatim>\<open>Popen\<close> raises, and then it launches nothing and leaves the table as it was. Its
  result and its effects are the same as on an empty process table.
\<close>

theorem start_watcher_running:
  "watcher_name \<in> dom (processes orc) \<longrightarrow>
     (map_of watcher_scripts watcher_name = Some script \<and> se script \<and> po script = Some proc
        \<longrightarrow> start_watcher se po watcher_name (orc, tr)
             = (True, orc\<lparr>processes := (processes orc)(watcher_name \<mapsto> proc)\<rparr>,
                tr @ [Popen script proc, OLog INFO ''Started watcher'']))
   \<and> (fst (start_watcher se po watcher_name (orc, tr)) = False \<longleftrightarrow>
        (case map_of watcher_scripts watcher_name of
           None \<Rightarrow> True
         | Some script' \<Rightarrow> \<not> se script' \<or> po script' = None))
   \<and> (fst (start_watcher se po watcher_name (orc, tr)) = False \<longrightarrow>
        fst (snd (start_watcher se po watcher_name (orc, tr))) = orc
        \<and> (\<forall>script' p. Popen script' p \<notin> set (drop (length tr)
              (snd (snd (start_watcher se po watcher_name (orc, tr)))))))
   \<and> fst (start_watcher se po watcher_name (orc, tr))
       = fst (start_watcher se po watcher_name (orc\<lparr>processes := Map.empty\<rparr>, tr))
   \<and> snd (snd (start_watcher se po watcher_name (orc, tr)))
       = snd (snd (start_watcher se po watcher_name (orc\<lparr>processes := Map.empty\<rparr>, tr)))"
  by (simp add: start_watcher_def split: option.splits)

theorem start_watcher_running_witness:
  "start_watcher (\<lambda>script. True) (\<lambda>script. Some 7) (py ''filesystem'')
     (\<lparr>max_iterations = 10, orch_dry_run = True, processes = [py ''filesystem'' \<mapsto> 3]\<rparr>, [])
   = (True,
      \<lparr>max_iterations = 10, orch_dry_run = True, processes = [py ''filesystem'' \<mapsto> 7]\<rparr>,
      [Popen (py ''filesystem_watcher.py'') 7, OLog INFO ''Started watcher''])"
proof -
  have d: "py ''filesystem'' \<in> dom (processes
      \<lparr>max_iterations = 10, orch_dry_run = True, processes = [py ''filesystem'' \<mapsto> 3]\<rparr>)"
    by simp
  have m: "map_of watcher_scripts (py ''filesystem'') = Some (py ''filesystem_watcher.py'')"
    by (simp add: watcher_scripts_def py_def)
  from start_watcher_running
    [of "py ''filesystem''"
        "\<lparr>max_iterations = 10, orch_dry_run = True, processes = [py ''filesystem'' \<mapsto> 3]\<rparr>"
        "py ''filesystem_watcher.py''" "\<lambda>script. True" "\<lambda>script. Some 7" 7 "[]"] d m
  show ?thesis by simp
qed

section \<open>Names of the action files\<close>

lemma digit_eq: "digit a = digit b \<longleftrightarrow> a mod 10 = b mod 10"
  by (simp add: digit_def)

lemma eq_of_div_mod_10: "x div 10 = y div 10 \<Longrightarrow> x mod 10 = y mod 10 \<Longrightarrow> (x::nat) = y"
  by (metis div_mult_mod_eq)

lemma d1000: "(a::nat) div 1000 = a div 100 div 10"
  by (simp add: div_mult2_eq [symmetric])

lemma d100: "(a::nat) div 100 = a div 10 div 10"
  by (simp add: div_mult2_eq [symmetric])

lemma four_digits:
  assumes "(a::nat) < 10000" "b < 10000"
    and "a div 1000 mod 10 = b div 1000 mod 10" "a div 100 mod 10 = b div 100 mod 10"
    and "a div 10 mod 10 = b div 10 mod 10" "a mod 10 = b mod 10"
  shows "a = b"
proof -
  from assms(1) have "a div 1000 < 10" by simp
  then have a: "a div 1000 mod 10 = a div 1000" by (rule mod_less)
  from assms(2) have "b div 1000 < 10" by simp
  then have b: "b div 1000 mod 10 = b div 1000" by (rule mod_less)
  from assms(3) have "a div 1000 = b div 1000" unfolding a b .
  then have "a div 100 div 10 = b div 100 div 10" unfolding d1000 .
  from this assms(4) have "a div 100 = b div 100" by (rule eq_of_div_mod_10)
  then have "a div 10 div 10 = b div 10 div 10" unfolding d100 .
  from this assms(5) have "a div 10 = b div 10" by (rule eq_of_div_mod_10)
  from this assms(6) show ?thesis by (rule eq_of_div_mod_10)
qed

lemma two_digits:
  assumes "(a::nat) < 100" "b < 100"
    and "a div 10 mod 10 = b div 10 mod 10" "a mod 10 = b mod 10"
  shows "a = b"
proof -
  from assms(1) have "a div 10 < 10" by simp
  then have a: "a div 10 mod 10 = a div 10" by (rule mod_less)
  from assms(2) have "b div 10 < 10" by simp
  then have b: "b div 10 mod 10 = b div 10" by (rule mod_less)
  from assms(3) have "a div 10 = b div 10" unfolding a b .
  from this assms(4) show ?thesis by (rule eq_of_div_mod_10)
qed

lemma dec2_inj:
  assumes "a < 100" "b < 100" "dec2 a = dec2 b"
  shows "a = b"
proof -
  from assms(3) have "a div 10 mod 10 = b div 10 mod 10" "a mod 10 = b mod 10"
    by (simp_all add: dec2_def digit_eq)
  then show ?thesis by (rule two_digits [OF assms(1,2)])
qed

lemma dec4_inj:
  assumes "a < 10000" "b < 10000" "dec4 a = dec4 b"
  shows "a = b"
proof -
  from assms(3) have "a div 1000 mod 10 = b div 1000 mod 10"
    "a div 100 mod 10 = b div 100 mod 10" "a div 10 mod 10 = b div 10 mod 10"
    "a mod 10 = b mod 10"
    by (simp_all add: dec4_def digit_eq)
  then show ?thesis by (rule four_digits [OF assms(1,2)])
qed

lemma dec_lengths: "length (dec2 n) = 2" "length (dec4 n) = 4"
  by (simp_all add: dec2_def dec4_def)

lemma strftime_parts:
  "strftime d1 = strftime d2 \<longleftrightarrow>
     dec4 (year d1) = dec4 (year d2) \<and> dec2 (month d1) = dec2 (month d2) \<and>
     dec2 (day d1) = dec2 (day d2) \<and> dec2 (hour d1) = dec2 (hour d2) \<and>
     dec2 (minute d1) = dec2 (minute d2) \<and> dec2 (second d1) = dec2 (second d2)"
  by (simp add: strftime_def dec_lengths)

lemma strftime_inj:
  assumes "valid_datetime d1" "valid_datetime d2"
  shows "strftime d1 = strftime d2 \<longleftrightarrow>
     year d1 = year d2 \<and> month d1 = month d2 \<and> day d1 = day d2 \<and>
     hour d1 = hour d2 \<and> minute d1 = minute d2 \<and> second d1 = second d2"
proof
  assume e: "strftime d1 = strftime d2"
  from assms have b: "year d1 < 10000" "year d2 < 10000" "month d1 < 100" "month d2 < 100"
    "day d1 < 100" "day d2 < 100" "hour d1 < 100" "hour d2 < 100"
    "minute d1 < 100" "minute d2 < 100" "second d1 < 100" "second d2 < 100"
    by (simp_all add: valid_datetime_def)
  from e have p: "dec4 (year d1) = dec4 (year d2)" "dec2 (month d1) = dec2 (month d2)"
     "dec2 (day d1) = dec2 (day d2)" "dec2 (hour d1) = dec2 (hour d2)"
     "dec2 (minute d1) = dec2 (minute d2)" "dec2 (second d1) = dec2 (second d2)"
    by (simp_all add: strftime_parts)
  from b p show "year d1 = year d2 \<and> month d1 = month d2 \<and> day d1 = day d2 \<and>
     hour d1 = hour d2 \<and> minute d1 = minute d2 \<and> second d1 = second d2"
    by (intro conjI dec4_inj dec2_inj)
next
  assume "year d1 = year d2 \<and> month d1 = month d2 \<and> day d1 = day d2 \<and>
     hour d1 = hour d2 \<and> minute d1 = minute d2 \<and> second d1 = second d2"
  then show "strftime d1 = strftime d2" by (simp add: strftime_def)
qed

lemma action_filename_eq:
  "file_action_filename l d1 = file_action_filename l d2 \<longleftrightarrow> strftime d1 = strftime d2"
  "email_action_filename l d1 = email_action_filename l d2 \<longleftrightarrow> strftime d1 = strftime d2"
  by (simp_all add: file_action_filename_def email_action_filename_def)

text \<open>
  C7, as stated, fails: the time stamp of the name has a resolution of one second. Two
  clock readings of the same second (here 14:05:07.12 and 14:05:07.87 of one day) give
  the same name for the same label, for a dropped file and for an e-mail alike, so the
  second \<^verbatim>\<open>write_text\<close> overwrites the first record.
\<close>

theorem action_filename_collision_counterexample:
  "\<lparr>year = 2025, month = 3, day = 9, hour = 14, minute = 5, second = 7, microsecond = 120000\<rparr>
     \<noteq> \<lparr>year = 2025, month = 3, day = 9, hour = 14, minute = 5, second = 7, microsecond = 870000\<rparr>
   \<and> file_action_filename (py ''report'')
       \<lparr>year = 2025, month = 3, day = 9, hour = 14, minute = 5, second = 7, microsecond = 120000\<rparr>
     = file_action_filename (py ''report'')
       \<lparr>year = 2025, month = 3, day = 9, hour = 14, minute = 5, second = 7, microsecond = 870000\<rparr>
   \<and> file_action_filename (py ''report'')
       \<lparr>year = 2025, month = 3, day = 9, hour = 14, minute = 5, second = 7, microsecond = 120000\<rparr>
     = py ''FILE_report_20250309_140507.md''
   \<and> email_action_filename (py ''Invoice'')
       \<lparr>year = 2025, month = 3, day = 9, hour = 14, minute = 5, second = 7, microsecond = 120000\<rparr>
     = email_action_filename (py ''Invoice'')
       \<lparr>year = 2025, month = 3, day = 9, hour = 14, minute = 5, second = 7, microsecond = 870000\<rparr>"
  by (simp add: file_action_filename_def email_action_filename_def strftime_def dec4_def
      dec2_def digit_def py_def sanitize_filename_def invalid_chars_def replace_char_def)

text \<open>
  C7, amended. For two candidates with the same label, materialised at clock readings
  \<open>d1\<close> and \<open>d2\<close> (valid readings, years 1000 to 9999), the two record names are
  equal exactly when the readings agree in year, month, day, hour, minute and second;
  so the names are distinct exactly when the local clock shows another second.
\<close>

theorem action_filename_distinct:
  "valid_datetime d1 \<and> valid_datetime d2 \<longrightarrow>
     (file_action_filename label d1 = file_action_filename label d2 \<longleftrightarrow>
        year d1 = year d2 \<and> month d1 = month d2 \<and> day d1 = day d2 \<and>
        hour d1 = hour d2 \<and> minute d1 = minute d2 \<and> second d1 = second d2)
   \<and> (email_action_filename label d1 = email_action_filename label d2 \<longleftrightarrow>
        year d1 = year d2 \<and> month d1 = month d2 \<and> day d1 = day d2 \<and>
        hour d1 = hour d2 \<and> minute d1 = minute d2 \<and> second d1 = second d2)"
  by (simp add: action_filename_eq strftime_inj)

theorem action_filename_distinct_witness:
  "file_action_filename (py ''report'')
       \<lparr>year = 2025, month = 3, day = 9, hour = 14, minute = 5, second = 7, microsecond = 120000\<rparr>
     \<noteq> file_action_filename (py ''report'')
       \<lparr>year = 2025, month = 3, day = 9, hour = 14, minute = 5, second = 8, microsecond = 120000\<rparr>"
proof -
  let ?d1 = "\<lparr>year = 2025, month = 3, day = 9, hour = 14, minute = 5, second = 7,
               microsecond = 120000\<rparr>"
  let ?d2 = "\<lparr>year = 2025, month = 3, day = 9, hour = 14, minute = 5, second = 8,
               microsecond = 120000\<rparr>"
  have v: "valid_datetime ?d1 \<and> valid_datetime ?d2"
    by (simp add: valid_datetime_def)
  have s: "second ?d1 \<noteq> second ?d2" by simp
  from action_filename_distinct [of ?d1 ?d2 "py ''report''"] v s
  show ?thesis by blast
qed

section \<open>The Gmail poll\<close>

lemma fetch_new_length:
  "fetch_new svc P messages = Some new_messages \<Longrightarrow> length new_messages \<le> length messages"
proof (induction messages arbitrary: new_messages)
  case Nil
  then show ?case by simp
next
  case (Cons m ms)
  show ?case
  proof (cases "m \<in> P")
    case True
    with Cons.prems have "fetch_new svc P ms = Some new_messages" by simp
    from Cons.IH [OF this] show ?thesis by simp
  next
    case False
    with Cons.prems obtain r where r: "fetch_new svc P ms = Some r"
      and n: "length new_messages = Suc (length r)"
      by (auto split: option.splits)
    from Cons.IH [OF r] n show ?thesis by simp
  qed
qed

lemma gmail_check_for_updates_length:
  "length (fst (gmail_check_for_updates authenticate (w, v))) \<le>
     (case (case service w of Some svc \<Rightarrow> Some svc | None \<Rightarrow> authenticate) of
        None \<Rightarrow> 0
      | Some svc \<Rightarrow>
          (case list_messages svc (py ''is:unread'' @
                  (if py ''IMPORTANT'' \<in> set (label_ids w) then py '' is:important'' else []))
                  10 of
             None \<Rightarrow> 0
           | Some messages \<Rightarrow> length messages))"
  by (auto simp: gmail_check_for_updates_def Let_def split: option.splits
      dest: fetch_new_length)

lemma fetch_new_known:
  "set messages \<subseteq> P \<Longrightarrow> fetch_new svc P messages = Some []"
  by (induction messages) simp_all

text \<open>
  C10, as stated, fails in its last clause. The poll asks for the first page of the
  listing only (no page token is ever passed) and the watcher never takes a message out
  of the listing (\<^verbatim>\<open>mark_as_read\<close> is never called), so the later polls list the same ten
  messages again. With twelve unread messages \<open>m0\<close> to \<open>m11\<close> the first poll returns
  \<open>m0\<close> to \<open>m9\<close>; once these ten are in the processed set, the next poll returns
  nothing and changes nothing, and so does every poll after it: \<open>m10\<close> and \<open>m11\<close> are
  unread, not processed, and not picked up.
\<close>

theorem gmail_later_polls_counterexample:
  "map item_id (fst (gmail_check_for_updates None
     (\<lparr>dry_run = False, processed_ids = {}, label_ids = [py ''UNREAD'', py ''IMPORTANT''],
       service = Some \<lparr>list_messages = (\<lambda>q n. Some (take n (map (\<lambda>k. [0x6D, k]) [0..<12]))),
                       get_message = (\<lambda>i. Some \<lparr>fm_snippet = None, fm_headers = Some []\<rparr>)\<rparr>\<rparr>,
      \<lparr>needs_action = Map.empty, ledger_file = None, effects = []\<rparr>)))
     = map (\<lambda>k. Some [0x6D, k]) [0..<10]
   \<and> gmail_check_for_updates None
     (\<lparr>dry_run = False, processed_ids = set (map (\<lambda>k. [0x6D, k]) [0..<10]),
       label_ids = [py ''UNREAD'', py ''IMPORTANT''],
       service = Some \<lparr>list_messages = (\<lambda>q n. Some (take n (map (\<lambda>k. [0x6D, k]) [0..<12]))),
                       get_message = (\<lambda>i. Some \<lparr>fm_snippet = None, fm_headers = Some []\<rparr>)\<rparr>\<rparr>,
      \<lparr>needs_action = Map.empty, ledger_file = None, effects = []\<rparr>)
     = ([],
        \<lparr>dry_run = False, processed_ids = set (map (\<lambda>k. [0x6D, k]) [0..<10]),
          label_ids = [py ''UNREAD'', py ''IMPORTANT''],
          service = Some \<lparr>list_messages = (\<lambda>q n. Some (take n (map (\<lambda>k. [0x6D, k]) [0..<12]))),
                          get_message = (\<lambda>i. Some \<lparr>fm_snippet = None, fm_headers = Some []\<rparr>)\<rparr>\<rparr>,
        \<lparr>needs_action = Map.empty, ledger_file = None, effects = []\<rparr>)
   \<and> [0x6D, 10] \<in> set (map (\<lambda>k. [0x6D, k]) [0..<12])
   \<and> [0x6D, 11] \<in> set (map (\<lambda>k. [0x6D, k]) [0..<12])
   \<and> [0x6D, 10] \<notin> set (map (\<lambda>k. [0x6D, k]) [0..<10])
   \<and> [0x6D, 11] \<notin> set (map (\<lambda>k. [0x6D, k]) [0..<10])"
proof -
  let ?ids = "map (\<lambda>k. [0x6D, k]) [0..<12]"
  let ?svc = "\<lparr>list_messages = (\<lambda>q n. Some (take n ?ids)),
               get_message = (\<lambda>i. Some \<lparr>fm_snippet = None, fm_headers = Some []\<rparr>)\<rparr>"
  have t: "take 10 ?ids = map (\<lambda>k. [0x6D, k]) [0..<10]"
    by (simp add: take_map)
  have f: "fetch_new ?svc {} ms
      = Some (map (\<lambda>m. \<lparr>item_id = Some m, item_snippet = Some [],
                            item_headers = Some Map.empty\<rparr>) ms)" for ms
    by (induction ms) simp_all
  have one: "map item_id (fst (gmail_check_for_updates None
     (\<lparr>dry_run = False, processed_ids = {}, label_ids = [py ''UNREAD'', py ''IMPORTANT''],
       service = Some ?svc\<rparr>,
      \<lparr>needs_action = Map.empty, ledger_file = None, effects = []\<rparr>)))
     = map (\<lambda>k. Some [0x6D, k]) [0..<10]"
    by (simp add: gmail_check_for_updates_def Let_def t f comp_def del: upt_Suc)
  have k: "fetch_new ?svc (set (map (\<lambda>k. [0x6D, k]) [0..<10])) (map (\<lambda>k. [0x6D, k]) [0..<10])
      = Some []"
    by (rule fetch_new_known) simp
  have two: "gmail_check_for_updates None
     (\<lparr>dry_run = False, processed_ids = set (map (\<lambda>k. [0x6D, k]) [0..<10]),
       label_ids = [py ''UNREAD'', py ''IMPORTANT''], service = Some ?svc\<rparr>,
      \<lparr>needs_action = Map.empty, ledger_file = None, effects = []\<rparr>)
     = ([],
        \<lparr>dry_run = False, processed_ids = set (map (\<lambda>k. [0x6D, k]) [0..<10]),
          label_ids = [py ''UNREAD'', py ''IMPORTANT''], service = Some ?svc\<rparr>,
        \<lparr>needs_action = Map.empty, ledger_file = None, effects = []\<rparr>)"
    using k by (simp add: gmail_check_for_updates_def Let_def t del: upt_Suc set_map)
  have three: "[0x6D, 10] \<in> set ?ids" "[0x6D, 11] \<in> set ?ids"
    "[0x6D, 10] \<notin> set (map (\<lambda>k. [0x6D, k]) [0..<10])"
    "[0x6D, 11] \<notin> set (map (\<lambda>k. [0x6D, k]) [0..<10])"
    by auto
  from one two three show ?thesis by (intro conjI)
qed

text \<open>
  C10, amended. Provided the Gmail service honours \<^verbatim>\<open>maxResults\<close> (a listing for a limit \<open>n\<close>
  has at most \<open>n\<close> stubs; this holds of the service the watcher has, or of the one
  that authentication yields), every call of \<^verbatim>\<open>check_for_updates\<close> returns at most 10
  items: the one listing is requested with the limit 10, no further page is fetched,
  and the loop only drops stubs from it.
\<close>

theorem gmail_check_for_updates_limit:
  "(\<forall>svc \<in> set_option (service w) \<union> set_option authenticate.
      \<forall>q n messages. list_messages svc q n = Some messages \<longrightarrow> length messages \<le> n)
   \<longrightarrow> length (fst (gmail_check_for_updates authenticate (w, v))) \<le> 10"
proof
  assume h: "\<forall>svc \<in> set_option (service w) \<union> set_option authenticate.
      \<forall>q n messages. list_messages svc q n = Some messages \<longrightarrow> length messages \<le> n"
  let ?q = "py ''is:unread'' @
     (if py ''IMPORTANT'' \<in> set (label_ids w) then py '' is:important'' else [])"
  let ?s = "case service w of Some svc \<Rightarrow> Some svc | None \<Rightarrow> authenticate"
  have b: "(case ?s of None \<Rightarrow> 0
      | Some svc \<Rightarrow> (case list_messages svc ?q 10 of None \<Rightarrow> 0
                      | Some messages \<Rightarrow> length messages)) \<le> 10"
  proof (cases ?s)
    case None
    then show ?thesis by simp
  next
    case (Some svc)
    then have "svc \<in> set_option (service w) \<union> set_option authenticate"
      by (auto split: option.splits)
    with h have "\<forall>messages. list_messages svc ?q 10 = Some messages \<longrightarrow> length messages \<le> 10"
      by blast
    with Some show ?thesis by (simp split: option.splits)
  qed
  from gmail_check_for_updates_length [of authenticate w v] b
  show "length (fst (gmail_check_for_updates authenticate (w, v))) \<le> 10"
    by (rule order_trans)
qed

theorem gmail_check_for_updates_limit_witness:
  "length (fst (gmail_check_for_updates None
     (\<lparr>dry_run = False, processed_ids = {}, label_ids = [py ''UNREAD'', py ''IMPORTANT''],
       service = Some \<lparr>list_messages = (\<lambda>q n. Some (take n (map (\<lambda>k. [0x6D, k]) [0..<12]))),
                       get_message = (\<lambda>i. Some \<lparr>fm_snippet = None, fm_headers = Some []\<rparr>)\<rparr>\<rparr>,
      \<lparr>needs_action = Map.empty, ledger_file = None, effects = []\<rparr>))) \<le> 10
   \<and> length (map (\<lambda>k. [0x6D, k]) [0..<12]) = 12"
proof -
  let ?svc = "\<lparr>list_messages = (\<lambda>q n. Some (take n (map (\<lambda>k. [0x6D, k]) [0..<12]))),
               get_message = (\<lambda>i. Some \<lparr>fm_snippet = None, fm_headers = Some []\<rparr>)\<rparr>"
  let ?w = "\<lparr>dry_run = False, processed_ids = {},
             label_ids = [py ''UNREAD'', py ''IMPORTANT''], service = Some ?svc\<rparr>"
  have h: "\<forall>svc \<in> set_option (service ?w) \<union> set_option None.
      \<forall>q n messages. list_messages svc q n = Some messages \<longrightarrow> length messages \<le> n"
    by auto
  from gmail_check_for_updates_limit
    [of ?w None "\<lparr>needs_action = Map.empty, ledger_file = None, effects = []\<rparr>"] h
  show ?thesis by simp
qed

section \<open>Dry-run mode\<close>

lemma process_file_dry:
  assumes "dry_run w"
  shows "case process_file ul io now f (w, v) of (r, w', v') \<Rightarrow>
           w' = w \<and> needs_action v' = needs_action v \<and> ledger_file v' = ledger_file v \<and>
           persistent_effects (effects v') = persistent_effects (effects v)"
  using assms by (simp add: process_file_def Let_def split: option.splits)

lemma gmail_create_action_file_dry:
  assumes "dry_run w"
  shows "case gmail_create_action_file ul io now item (w, v) of (r, w', v') \<Rightarrow>
           w' = w \<and> needs_action v' = needs_action v \<and> ledger_file v' = ledger_file v \<and>
           persistent_effects (effects v') = persistent_effects (effects v)"
  using assms by (simp add: gmail_create_action_file_def Let_def split: option.splits)

lemma process_items_dry:
  assumes "dry_run w"
  shows "case process_items ul io clock k items (w, v) of (w', v') \<Rightarrow>
           w' = w \<and> needs_action v' = needs_action v \<and> ledger_file v' = ledger_file v \<and>
           persistent_effects (effects v') = persistent_effects (effects v)"
proof (induction items arbitrary: k v)
  case Nil
  show ?case by simp
next
  case (Cons item items)
  from Cons.IH [where k = "Suc k" and v = "emit (Log INFO ''[DRY RUN] Would process item'') v"]
  show ?case using assms by (simp split: prod.splits)
qed

lemma check_for_updates_frame:
  "case check_for_updates drop_folder (w, v) of (items, w', v') \<Rightarrow>
           w' = w \<and> needs_action v' = needs_action v \<and> ledger_file v' = ledger_file v \<and>
           persistent_effects (effects v') = persistent_effects (effects v)"
  by (simp add: check_for_updates_def split: option.splits)

lemma run_cycle_dry:
  assumes "dry_run w"
  shows "case run_cycle ul io clock drop_folder (w, v) of (w', v') \<Rightarrow>
           w' = w \<and> needs_action v' = needs_action v \<and> ledger_file v' = ledger_file v \<and>
           persistent_effects (effects v') = persistent_effects (effects v)"
proof -
  obtain items w1 v1 where c: "check_for_updates drop_folder (w, v) = (items, w1, v1)"
    by (cases "check_for_updates drop_folder (w, v)") auto
  with check_for_updates_frame [where drop_folder = drop_folder and w = w and v = v]
  have f: "w1 = w" "needs_action v1 = needs_action v" "ledger_file v1 = ledger_file v"
    "persistent_effects (effects v1) = persistent_effects (effects v)" by simp_all
  show ?thesis
  proof (cases "items = []")
    case True
    with c f show ?thesis by (simp add: run_cycle_def)
  next
    case False
    from process_items_dry [OF assms,
        where items = items and v = "emit (Log INFO ''Found new item(s)'') v1" and k = 0]
    show ?thesis using c f False by (simp add: run_cycle_def split: prod.splits)
  qed
qed

lemma lower_true: "lower ul (py ''true'') = py ''true''"
  by (simp add: lower_def py_def ascii_lower_def)

lemma dry_run_init:
  "dry_run (base_watcher_init ul env) \<longleftrightarrow>
     (case env of None \<Rightarrow> True | Some x \<Rightarrow> lower ul x = py ''true'')"
  "dry_run (filesystem_watcher_init ul env loaded) = dry_run (base_watcher_init ul env)"
  "dry_run (gmail_watcher_init ul env loaded labels) = dry_run (base_watcher_init ul env)"
  by (simp_all add: base_watcher_init_def filesystem_watcher_init_def gmail_watcher_init_def
      Let_def lower_true split: option.splits)

text \<open>
  C9, as stated, fails: the test is \<^verbatim>\<open>== 'true'\<close>, not \<^verbatim>\<open>!= 'false'\<close>. With
  \<^verbatim>\<open>DRY_RUN=0\<close>, a value that is not \<^verbatim>\<open>false\<close> in any case, both watchers start with
  dry-run mode disabled; so does the filesystem watcher with \<^verbatim>\<open>DRY_RUN\<close> set to the empty
  string.
\<close>

theorem dry_run_unless_false_counterexample:
  "lower no_unicode_lower (py ''0'') \<noteq> py ''false''
   \<and> \<not> dry_run (filesystem_watcher_init no_unicode_lower (Some (py ''0'')) {})
   \<and> \<not> dry_run (gmail_watcher_init no_unicode_lower (Some (py ''0'')) {} None)
   \<and> \<not> dry_run (filesystem_watcher_init no_unicode_lower (Some []) {})"
  by (simp add: dry_run_init lower_def py_def ascii_lower_def)

text \<open>
  C9, amended. A watcher starts with dry-run mode enabled exactly when \<^verbatim>\<open>DRY_RUN\<close> is
  unset or its value lower-cases to \<^verbatim>\<open>true\<close>; every other value disables it. In dry-run
  mode, processing a candidate (\<^verbatim>\<open>process_file\<close>, the Gmail \<^verbatim>\<open>create_action_file\<close>, and a
  whole polling pass of \<^verbatim>\<open>run\<close>) copies no file, writes no action file and admits
  nothing: the watcher, the files of \<^verbatim>\<open>Needs_Action\<close> and the ledger file are unchanged,
  and the only effects are log calls.
\<close>

theorem dry_run_mode:
  "(dry_run (base_watcher_init ul env) \<longleftrightarrow>
      (case env of None \<Rightarrow> True | Some x \<Rightarrow> lower ul x = py ''true''))
   \<and> dry_run (filesystem_watcher_init ul env loaded) = dry_run (base_watcher_init ul env)
   \<and> dry_run (gmail_watcher_init ul env loaded labels) = dry_run (base_watcher_init ul env)
   \<and> (dry_run w \<longrightarrow>
        (case process_file ul io now f (w, v) of (r, w', v') \<Rightarrow>
           w' = w \<and> needs_action v' = needs_action v \<and> ledger_file v' = ledger_file v \<and>
           persistent_effects (effects v') = persistent_effects (effects v)))
   \<and> (dry_run gw \<longrightarrow>
        (case gmail_create_action_file ul io now item (gw, v) of (r, w', v') \<Rightarrow>
           w' = gw \<and> needs_action v' = needs_action v \<and> ledger_file v' = ledger_file v \<and>
           persistent_effects (effects v') = persistent_effects (effects v)))
   \<and> (dry_run w \<longrightarrow>
        (case run_cycle ul ios clock drop_folder (w, v) of (w', v') \<Rightarrow>
           w' = w \<and> needs_action v' = needs_action v \<and> ledger_file v' = ledger_file v \<and>
           persistent_effects (effects v') = persistent_effects (effects v)))"
  using dry_run_init(1) [where ul = ul and env = env]
    dry_run_init(2) [where ul = ul and env = env and loaded = loaded]
    dry_run_init(3) [where ul = ul and env = env and loaded = loaded and labels = labels]
    process_file_dry [where w = w and ul = ul and io = io and now = now and f = f and v = v]
    gmail_create_action_file_dry
      [where w = gw and ul = ul and io = io and now = now and item = item and v = v]
    run_cycle_dry [where w = w and ul = ul and io = ios and clock = clock
      and drop_folder = drop_folder and v = v]
  by blast


theorem dry_run_mode_witness:
  "dry_run (filesystem_watcher_init no_unicode_lower None {})
   \<and> (case process_file no_unicode_lower
             no_faults
             \<lparr>year = 2025, month = 3, day = 9, hour = 14, minute = 5, second = 7,
               microsecond = 0\<rparr>
             \<lparr>fname = py ''invoice.pdf'', is_file = True, digest = Some (py ''ab12''),
               fsize = 10\<rparr>
             (filesystem_watcher_init no_unicode_lower None {},
              \<lparr>needs_action = Map.empty, ledger_file = None, effects = []\<rparr>) of
         (r, w', v') \<Rightarrow>
           processed_files w' = {} \<and> needs_action v' = Map.empty \<and> ledger_file v' = None \<and>
           persistent_effects (effects v') = [])"
proof -
  let ?w = "filesystem_watcher_init no_unicode_lower None {}"
  let ?v = "\<lparr>needs_action = Map.empty, ledger_file = None, effects = []\<rparr>"
  note t = dry_run_mode [where ul = no_unicode_lower and env = None and loaded = "{}"
      and w = ?w and v = ?v
      and io = "no_faults"
      and now = "\<lparr>year = 2025, month = 3, day = 9, hour = 14, minute = 5, second = 7,
               microsecond = 0\<rparr>"
      and f = "\<lparr>fname = py ''invoice.pdf'', is_file = True, digest = Some (py ''ab12''),
               fsize = 10\<rparr>"]
  from t have d: "dry_run ?w" by simp
  have p: "processed_files ?w = {}" by (simp add: filesystem_watcher_init_def Let_def)
  have e: "persistent_effects (effects ?v) = []" by (simp add: persistent_effects_def)
  note pf = t [THEN conjunct2, THEN conjunct2, THEN conjunct2, THEN conjunct1, THEN mp, OF d]
  from pf d p e show ?thesis by (auto split: prod.splits)
qed


section \<open>Admission to the ledger follows the write\<close>


lemma get_file_metadata_some:
  "digest f = Some h \<Longrightarrow> \<exists>md. get_file_metadata ul f = Some md"
  by (simp add: get_file_metadata_def Let_def split: prod.splits)

lemma process_file_unreadable:
  assumes "digest f = None"
  shows "process_file ul io now f (w, v) = (None, w, emit (Log ERROR ''Error processing file'') v)"
  using assms by (simp add: process_file_def)

lemma process_file_known:
  assumes "digest f = Some h" "h \<in> processed_files w"
  shows "process_file ul io now f (w, v) = (None, w, emit (Log DEBUG ''File already processed'') v)"
  using assms by (simp add: process_file_def)

lemma process_file_copy_raises:
  assumes "\<not> dry_run w" "digest f = Some h" "h \<notin> processed_files w" "copy_raises io"
  shows "process_file ul io now f (w, v) =
     (None, w,
      emit (Log ERROR ''Error processing file'')
        (if copy_opened io then v\<lparr>needs_action := (needs_action v)(fname f \<mapsto> Incomplete)\<rparr>
         else v))"
proof -
  from get_file_metadata_some [OF assms(2)] obtain md where "get_file_metadata ul f = Some md"
    by blast
  with assms show ?thesis by (simp add: process_file_def Let_def)
qed

lemma process_file_write_raises:
  assumes "\<not> dry_run w" "digest f = Some h" "h \<notin> processed_files w" "\<not> copy_raises io"
    "write_raises io"
  shows "process_file ul io now f (w, v) =
     (None, w,
      v\<lparr>needs_action :=
          (if write_opened io
           then (needs_action v)(fname f \<mapsto> Payload h,
                  file_action_filename (stem (fname f)) now \<mapsto> Incomplete)
           else (needs_action v)(fname f \<mapsto> Payload h)),
        effects := effects v @ [CopyFile (fname f), Log INFO ''Copied file'',
                                Log ERROR ''Error processing file'']\<rparr>)"
proof -
  from get_file_metadata_some [OF assms(2)] obtain md where "get_file_metadata ul f = Some md"
    by blast
  with assms show ?thesis by (simp add: process_file_def Let_def emit_def)
qed

lemma process_file_written:
  assumes "\<not> dry_run w" "digest f = Some h" "h \<notin> processed_files w" "\<not> copy_raises io"
    "\<not> write_raises io"
  shows "case process_file ul io now f (w, v) of (r, w', v') \<Rightarrow>
     r = Some (fname f) \<and> w' = w\<lparr>processed_files := insert h (processed_files w)\<rparr> \<and>
     ledger_file v' =
       (if save_raises io then
          (if save_opened io then Some (save_partial io \<inter> insert h (processed_files w))
           else ledger_file v)
        else Some (insert h (processed_files w))) \<and>
     (\<exists>fields. needs_action v' (file_action_filename (stem (fname f)) now)
                 = Some (ActionFile fields)) \<and>
     effects v' = effects v @
       [CopyFile (fname f), Log INFO ''Copied file'',
        WriteFile (file_action_filename (stem (fname f)) now), Log INFO ''Created action file'',
        LedgerAdd h] @
       (if save_raises io then [Log ERROR ''Could not save processed hashes'']
        else [LedgerSave, Log DEBUG ''Saved processed file hashes'']) @
       [Log DEBUG ''Logged action'']"
proof -
  from get_file_metadata_some [OF assms(2)] obtain md where "get_file_metadata ul f = Some md"
    by blast
  with assms show ?thesis
    by (simp add: process_file_def Let_def emit_def log_action_def save_processed_files_def
        file_content_def)
qed

lemma admissions_after_prefix:
  assumes "new = pre @ post" "\<forall>e\<in>set pre. \<not> is_admission e" "c \<in> set pre"
    "i < length new" "is_admission (new ! i)"
  shows "\<exists>j<i. new ! j = c"
proof -
  have "\<not> i < length pre"
  proof
    assume "i < length pre"
    with assms(1) have "new ! i \<in> set pre" by (simp add: nth_append)
    with assms(2,5) show False by blast
  qed
  moreover from assms(3) obtain j where "j < length pre" "pre ! j = c"
    by (auto simp: in_set_conv_nth)
  ultimately have "j < i" "new ! j = c" using assms(1) by (simp_all add: nth_append)
  then show ?thesis by blast
qed

lemma no_admission_index:
  "\<forall>e\<in>set new. \<not> is_admission e \<Longrightarrow> i < length new \<Longrightarrow> \<not> is_admission (new ! i)"
  by simp

lemma check_for_updates_fst:
  "processed_files w' = processed_files w \<Longrightarrow>
   fst (check_for_updates drop_folder (w', v')) = fst (check_for_updates drop_folder (w, v))"
  by (simp add: check_for_updates_def split: option.splits)

lemma process_file_admit:
  assumes live: "\<not> dry_run w"
  shows "case process_file ul io now f (w, v) of (r, w', v') \<Rightarrow>
       (\<exists>new. effects v' = effects v @ new \<and>
          (\<forall>i<length new. is_admission (new ! i) \<longrightarrow>
             (\<exists>j<i. new ! j = CopyFile (fname f)) \<and>
             (\<exists>j<i. new ! j = WriteFile (file_action_filename (stem (fname f)) now)) \<and>
             (\<exists>fields. needs_action v' (file_action_filename (stem (fname f)) now) = Some (ActionFile fields)) \<and>
             \<not> copy_raises io \<and> \<not> write_raises io) \<and>
          (processed_files w' \<noteq> processed_files w \<or> ledger_file v' \<noteq> ledger_file v
             \<longrightarrow> (\<exists>i<length new. is_admission (new ! i))) \<and>
          (copy_raises io \<or> write_raises io \<longrightarrow>
             r = None \<and> w' = w \<and> ledger_file v' = ledger_file v \<and>
             (\<forall>e\<in>set new. \<not> is_admission e) \<and>
             (\<forall>drop_folder. fst (check_for_updates drop_folder (w', v'))
                             = fst (check_for_updates drop_folder (w, v)))))"
proof -
  let ?a = "file_action_filename (stem (fname f)) now"
  have quiet: "case (None, w, v') of (r, w', v') \<Rightarrow>
       (\<exists>new. effects v' = effects v @ new \<and>
          (\<forall>i<length new. is_admission (new ! i) \<longrightarrow>
             (\<exists>j<i. new ! j = CopyFile (fname f)) \<and>
             (\<exists>j<i. new ! j = WriteFile (file_action_filename (stem (fname f)) now)) \<and>
             (\<exists>fields. needs_action v' (file_action_filename (stem (fname f)) now) = Some (ActionFile fields)) \<and>
             \<not> copy_raises io \<and> \<not> write_raises io) \<and>
          (processed_files w' \<noteq> processed_files w \<or> ledger_file v' \<noteq> ledger_file v
             \<longrightarrow> (\<exists>i<length new. is_admission (new ! i))) \<and>
          (copy_raises io \<or> write_raises io \<longrightarrow>
             r = None \<and> w' = w \<and> ledger_file v' = ledger_file v \<and>
             (\<forall>e\<in>set new. \<not> is_admission e) \<and>
             (\<forall>drop_folder. fst (check_for_updates drop_folder (w', v'))
                             = fst (check_for_updates drop_folder (w, v)))))"
    if e: "effects v' = effects v @ new" and n: "\<forall>e\<in>set new. \<not> is_admission e"
      and l: "ledger_file v' = ledger_file v" for v' new
  proof -
    from n have "\<forall>i<length new. \<not> is_admission (new ! i)" by simp
    with e n l show ?thesis by (auto simp: check_for_updates_fst)
  qed
  show ?thesis
  proof (cases "digest f")
    case None
    have "\<forall>e\<in>set [Log ERROR ''Error processing file'']. \<not> is_admission e"
      by (simp add: is_admission_def)
    from quiet [OF _ this, of "emit (Log ERROR ''Error processing file'') v"]
    show ?thesis by (simp add: process_file_unreadable [OF None])
  next
    case (Some h)
    show ?thesis
    proof (cases "h \<in> processed_files w")
      case True
      have "\<forall>e\<in>set [Log DEBUG ''File already processed'']. \<not> is_admission e"
        by (simp add: is_admission_def)
      from quiet [OF _ this, of "emit (Log DEBUG ''File already processed'') v"]
      show ?thesis by (simp add: process_file_known [OF Some True])
    next
      case new: False
      show ?thesis
      proof (cases "copy_raises io")
        case True
        let ?v' = "emit (Log ERROR ''Error processing file'')
          (if copy_opened io then v\<lparr>needs_action := (needs_action v)(fname f \<mapsto> Incomplete)\<rparr>
           else v)"
        have n: "\<forall>e\<in>set [Log ERROR ''Error processing file'']. \<not> is_admission e"
          by (simp add: is_admission_def)
        have e: "effects ?v' = effects v @ [Log ERROR ''Error processing file'']" by simp
        have l: "ledger_file ?v' = ledger_file v" by simp
        from quiet [OF e n l]
        show ?thesis by (simp only: process_file_copy_raises [OF live Some new True])
      next
        case copied: False
        show ?thesis
        proof (cases "write_raises io")
          case True
          let ?v' = "v\<lparr>needs_action :=
              (if write_opened io
               then (needs_action v)(fname f \<mapsto> Payload h, ?a \<mapsto> Incomplete)
               else (needs_action v)(fname f \<mapsto> Payload h)),
            effects := effects v @ [CopyFile (fname f), Log INFO ''Copied file'',
                                Log ERROR ''Error processing file'']\<rparr>"
          have n: "\<forall>e\<in>set [CopyFile (fname f), Log INFO ''Copied file'',
                         Log ERROR ''Error processing file'']. \<not> is_admission e"
            by (simp add: is_admission_def)
          have e: "effects ?v' = effects v @ [CopyFile (fname f), Log INFO ''Copied file'',
                         Log ERROR ''Error processing file'']" by simp
          have l: "ledger_file ?v' = ledger_file v" by simp
          from quiet [OF e n l]
          show ?thesis by (simp only: process_file_write_raises [OF live Some new copied True])
        next
          case written: False
          let ?pre = "[CopyFile (fname f), Log INFO ''Copied file'', WriteFile ?a,
                       Log INFO ''Created action file'']"
          let ?post = "[LedgerAdd h] @
             (if save_raises io then [Log ERROR ''Could not save processed hashes'']
              else [LedgerSave, Log DEBUG ''Saved processed file hashes'']) @
             [Log DEBUG ''Logged action'']"
          obtain r w' v' where p: "process_file ul io now f (w, v) = (r, w', v')"
            by (cases "process_file ul io now f (w, v)") auto
          with process_file_written [OF live Some new copied written,
              where ul = ul and now = now and v = v]
          have r: "r = Some (fname f)"
            and w': "w' = w\<lparr>processed_files := insert h (processed_files w)\<rparr>"
            and na: "\<exists>fields. needs_action v' ?a = Some (ActionFile fields)"
            and ef: "effects v' = effects v @ (?pre @ ?post)"
            by simp_all
          have pre: "\<forall>e\<in>set ?pre. \<not> is_admission e" by (simp add: is_admission_def)
          have ord: "(\<exists>j<i. (?pre @ ?post) ! j = CopyFile (fname f)) \<and>
                     (\<exists>j<i. (?pre @ ?post) ! j = WriteFile ?a)"
            if "i < length (?pre @ ?post)" "is_admission ((?pre @ ?post) ! i)" for i
            using admissions_after_prefix [OF refl pre _ that, of "CopyFile (fname f)"]
              admissions_after_prefix [OF refl pre _ that, of "WriteFile ?a"]
            by simp
          have adm: "\<exists>i<length (?pre @ ?post). is_admission ((?pre @ ?post) ! i)"
          proof -
            have "4 < length (?pre @ ?post)" by simp
            moreover have "is_admission ((?pre @ ?post) ! 4)" by (simp add: is_admission_def)
            ultimately show ?thesis by blast
          qed
          from ord adm na copied written ef
          have "\<exists>new. effects v' = effects v @ new \<and>
            (\<forall>i<length new. is_admission (new ! i) \<longrightarrow>
               (\<exists>j<i. new ! j = CopyFile (fname f)) \<and>
               (\<exists>j<i. new ! j = WriteFile ?a) \<and>
               (\<exists>fields. needs_action v' ?a = Some (ActionFile fields)) \<and>
               \<not> copy_raises io \<and> \<not> write_raises io) \<and>
            (processed_files w' \<noteq> processed_files w \<or> ledger_file v' \<noteq> ledger_file v
               \<longrightarrow> (\<exists>i<length new. is_admission (new ! i)))"
            by (intro exI [of _ "?pre @ ?post"]) blast
          with copied written p show ?thesis by simp
        qed
      qed
    qed
  qed
qed

lemma gmail_malformed:
  assumes "item_headers item = None \<or> item_snippet item = None \<or> item_id item = None"
  shows "gmail_create_action_file ul io now item (w, v)
         = (None, w, emit (Log ERROR ''Error creating action file'') v)"
  using assms by (auto simp: gmail_create_action_file_def split: option.splits)

lemma gmail_write_raises:
  assumes "\<not> dry_run w" "item_headers item = Some hs" "item_snippet item = Some sn"
    "item_id item = Some m" "write_raises io"
  shows "gmail_create_action_file ul io now item (w, v)
         = (None, w,
            emit (Log ERROR ''Error creating action file'')
              (if write_opened io
               then v\<lparr>needs_action := (needs_action v)
                      (email_action_filename (header_get hs (py ''Subject'') (py ''No Subject''))
                         now \<mapsto> Incomplete)\<rparr>
               else v))"
  using assms by (simp add: gmail_create_action_file_def Let_def)

lemma gmail_written:
  assumes "\<not> dry_run w" "item_headers item = Some hs" "item_snippet item = Some sn"
    "item_id item = Some m" "\<not> write_raises io"
  shows "case gmail_create_action_file ul io now item (w, v) of (r, w', v') \<Rightarrow>
     r = Some (email_action_filename (header_get hs (py ''Subject'') (py ''No Subject'')) now) \<and>
     w' = w\<lparr>processed_ids := insert m (processed_ids w)\<rparr> \<and>
     ledger_file v' =
       (if save_raises io then
          (if save_opened io then Some (save_partial io \<inter> insert m (processed_ids w))
           else ledger_file v)
        else Some (insert m (processed_ids w))) \<and>
     (\<exists>fields. needs_action v'
         (email_action_filename (header_get hs (py ''Subject'') (py ''No Subject'')) now)
       = Some (ActionFile fields)) \<and>
     effects v' = effects v @
       [WriteFile (email_action_filename (header_get hs (py ''Subject'') (py ''No Subject'')) now),
        LedgerAdd m] @
       (if save_raises io then [Log ERROR ''Could not save processed IDs'']
        else [LedgerSave, Log DEBUG ''Saved processed message IDs'']) @
       [Log INFO ''Created action file'', Log DEBUG ''Logged action'']"
  using assms
  by (simp add: gmail_create_action_file_def Let_def emit_def log_action_def
      gmail_save_processed_ids_def email_content_def)

lemma gmail_check_for_updates_fst:
  "fst (gmail_check_for_updates a (w, v')) = fst (gmail_check_for_updates a (w, v))"
  by (simp add: gmail_check_for_updates_def Let_def split: option.splits)

lemma gmail_create_action_file_admit:
  assumes live: "\<not> dry_run w"
  shows "case gmail_create_action_file ul io now item (w, v) of (r, w', v') \<Rightarrow>
       (\<exists>new. effects v' = effects v @ new \<and>
          (\<forall>i<length new. is_admission (new ! i) \<longrightarrow>
             (\<exists>j<i. new ! j = WriteFile (email_action_filename
                 (header_get (the (item_headers item)) (py ''Subject'') (py ''No Subject'')) now)) \<and>
             (\<exists>fields. needs_action v' (email_action_filename
                 (header_get (the (item_headers item)) (py ''Subject'') (py ''No Subject'')) now) = Some (ActionFile fields)) \<and>
             \<not> write_raises io) \<and>
          (processed_ids w' \<noteq> processed_ids w \<or> ledger_file v' \<noteq> ledger_file v
             \<longrightarrow> (\<exists>i<length new. is_admission (new ! i))) \<and>
          (write_raises io \<longrightarrow>
             r = None \<and> w' = w \<and> ledger_file v' = ledger_file v \<and>
             needs_action v' =
               (if write_opened io \<and> item_headers item \<noteq> None \<and>
                   item_snippet item \<noteq> None \<and> item_id item \<noteq> None
                then (needs_action v)((email_action_filename
                 (header_get (the (item_headers item)) (py ''Subject'') (py ''No Subject'')) now) \<mapsto> Incomplete)
                else needs_action v) \<and>
             (\<forall>e\<in>set new. \<not> is_admission e) \<and>
             (\<forall>a. fst (gmail_check_for_updates a (w', v'))
                   = fst (gmail_check_for_updates a (w, v)))))"
proof -
  let ?a = "email_action_filename
     (header_get (the (item_headers item)) (py ''Subject'') (py ''No Subject'')) now"
  have n: "\<forall>e\<in>set [Log ERROR ''Error creating action file'']. \<not> is_admission e"
    by (simp add: is_admission_def)
  then have ni: "\<forall>i<length [Log ERROR ''Error creating action file''].
      \<not> is_admission ([Log ERROR ''Error creating action file''] ! i)" by simp
  have quiet: "case (None, w, v') of (r, w', v') \<Rightarrow>
       (\<exists>new. effects v' = effects v @ new \<and>
          (\<forall>i<length new. is_admission (new ! i) \<longrightarrow>
             (\<exists>j<i. new ! j = WriteFile (email_action_filename
                 (header_get (the (item_headers item)) (py ''Subject'') (py ''No Subject'')) now)) \<and>
             (\<exists>fields. needs_action v' (email_action_filename
                 (header_get (the (item_headers item)) (py ''Subject'') (py ''No Subject'')) now) = Some (ActionFile fields)) \<and>
             \<not> write_raises io) \<and>
          (processed_ids w' \<noteq> processed_ids w \<or> ledger_file v' \<noteq> ledger_file v
             \<longrightarrow> (\<exists>i<length new. is_admission (new ! i))) \<and>
          (write_raises io \<longrightarrow>
             r = None \<and> w' = w \<and> ledger_file v' = ledger_file v \<and>
             needs_action v' =
               (if write_opened io \<and> item_headers item \<noteq> None \<and>
                   item_snippet item \<noteq> None \<and> item_id item \<noteq> None
                then (needs_action v)((email_action_filename
                 (header_get (the (item_headers item)) (py ''Subject'') (py ''No Subject'')) now) \<mapsto> Incomplete)
                else needs_action v) \<and>
             (\<forall>e\<in>set new. \<not> is_admission e) \<and>
             (\<forall>a. fst (gmail_check_for_updates a (w', v'))
                   = fst (gmail_check_for_updates a (w, v)))))"
    if e: "effects v' = effects v @ [Log ERROR ''Error creating action file'']"
      and l: "ledger_file v' = ledger_file v"
      and f: "needs_action v' =
               (if write_opened io \<and> item_headers item \<noteq> None \<and>
                   item_snippet item \<noteq> None \<and> item_id item \<noteq> None
                then (needs_action v)(?a \<mapsto> Incomplete)
                else needs_action v) \<or> \<not> write_raises io" for v'
    using n ni e l f
    by (auto simp: gmail_check_for_updates_fst
        intro!: exI [of _ "[Log ERROR ''Error creating action file'']"])
  show ?thesis
  proof (cases "item_headers item = None \<or> item_snippet item = None \<or> item_id item = None")
    case True
    let ?v' = "emit (Log ERROR ''Error creating action file'') v"
    have "effects ?v' = effects v @ [Log ERROR ''Error creating action file'']"
      "ledger_file ?v' = ledger_file v" by simp_all
    moreover from True have "needs_action ?v' =
               (if write_opened io \<and> item_headers item \<noteq> None \<and>
                   item_snippet item \<noteq> None \<and> item_id item \<noteq> None
                then (needs_action v)(?a \<mapsto> Incomplete)
                else needs_action v) \<or> \<not> write_raises io" by auto
    ultimately show ?thesis by (simp only: gmail_malformed [OF True]) (rule quiet)
  next
    case False
    then obtain hs sn m where i: "item_headers item = Some hs" "item_snippet item = Some sn"
      "item_id item = Some m" by auto
    show ?thesis
    proof (cases "write_raises io")
      case True
      let ?v' = "emit (Log ERROR ''Error creating action file'')
              (if write_opened io
               then v\<lparr>needs_action := (needs_action v)
                      (email_action_filename (header_get hs (py ''Subject'') (py ''No Subject''))
                         now \<mapsto> Incomplete)\<rparr>
               else v)"
      have "effects ?v' = effects v @ [Log ERROR ''Error creating action file'']"
        "ledger_file ?v' = ledger_file v" by simp_all
      moreover from i have "needs_action ?v' =
               (if write_opened io \<and> item_headers item \<noteq> None \<and>
                   item_snippet item \<noteq> None \<and> item_id item \<noteq> None
                then (needs_action v)(?a \<mapsto> Incomplete)
                else needs_action v) \<or> \<not> write_raises io" by simp
      ultimately show ?thesis
        by (simp only: gmail_write_raises [OF live i True]) (rule quiet)
    next
      case written: False
      let ?pre = "[WriteFile ?a]"
      let ?post = "[LedgerAdd m] @
         (if save_raises io then [Log ERROR ''Could not save processed IDs'']
          else [LedgerSave, Log DEBUG ''Saved processed message IDs'']) @
         [Log INFO ''Created action file'', Log DEBUG ''Logged action'']"
      obtain r w' v' where p: "gmail_create_action_file ul io now item (w, v) = (r, w', v')"
        by (cases "gmail_create_action_file ul io now item (w, v)") auto
      with gmail_written [OF live i written, where ul = ul and now = now and v = v] i(1)
      have na: "\<exists>fields. needs_action v' ?a = Some (ActionFile fields)"
        and ef: "effects v' = effects v @ (?pre @ ?post)"
        by simp_all
      have pre: "\<forall>e\<in>set ?pre. \<not> is_admission e" by (simp add: is_admission_def)
      have ord: "\<exists>j<i. (?pre @ ?post) ! j = WriteFile ?a"
        if "i < length (?pre @ ?post)" "is_admission ((?pre @ ?post) ! i)" for i
        using admissions_after_prefix [OF refl pre _ that, of "WriteFile ?a"] by simp
      have adm: "\<exists>i<length (?pre @ ?post). is_admission ((?pre @ ?post) ! i)"
      proof -
        have "1 < length (?pre @ ?post)" by simp
        moreover have "is_admission ((?pre @ ?post) ! 1)" by (simp add: is_admission_def)
        ultimately show ?thesis by blast
      qed
      from ord adm na written ef
      have "\<exists>new. effects v' = effects v @ new \<and>
        (\<forall>i<length new. is_admission (new ! i) \<longrightarrow>
           (\<exists>j<i. new ! j = WriteFile ?a) \<and>
           (\<exists>fields. needs_action v' ?a = Some (ActionFile fields)) \<and>
           \<not> write_raises io) \<and>
        (processed_ids w' \<noteq> processed_ids w \<or> ledger_file v' \<noteq> ledger_file v
           \<longrightarrow> (\<exists>i<length new. is_admission (new ! i)))"
        by (intro exI [of _ "?pre @ ?post"]) blast
      with written p show ?thesis by simp
    qed
  qed
qed

text \<open>
  C1. Outside dry-run mode, in the effects that one call of \<^verbatim>\<open>process_file\<close> adds, every
  admission to the ledger (the identifier entering the in-memory set, the rewrite of the
  ledger file) comes after the copy of the payload and after the write of the action
  file, and when it happens the complete action file is in \<^verbatim>\<open>Needs_Action\<close> and neither
  call has raised. The processed set and the ledger file change only through such an
  admission. When the copy or the write raises, the call returns \<^verbatim>\<open>None\<close>, the watcher
  and the ledger file are as before, nothing is admitted, and the next poll returns
  what it would have returned before, so the candidate is still eligible. The same
  holds of the Gmail \<^verbatim>\<open>create_action_file\<close> with the write of the action file alone; there
  a write that raises leaves the files of \<^verbatim>\<open>Needs_Action\<close> as they were, but for an
  incomplete action file when it raised after opening it.
\<close>

theorem admit_after_durable_write:
  "(\<not> dry_run w \<longrightarrow>
     (case process_file ul io now f (w, v) of (r, w', v') \<Rightarrow>
       (\<exists>new. effects v' = effects v @ new \<and>
          (\<forall>i<length new. is_admission (new ! i) \<longrightarrow>
             (\<exists>j<i. new ! j = CopyFile (fname f)) \<and>
             (\<exists>j<i. new ! j = WriteFile (file_action_filename (stem (fname f)) now)) \<and>
             (\<exists>fields. needs_action v' (file_action_filename (stem (fname f)) now) = Some (ActionFile fields)) \<and>
             \<not> copy_raises io \<and> \<not> write_raises io) \<and>
          (processed_files w' \<noteq> processed_files w \<or> ledger_file v' \<noteq> ledger_file v
             \<longrightarrow> (\<exists>i<length new. is_admission (new ! i))) \<and>
          (copy_raises io \<or> write_raises io \<longrightarrow>
             r = None \<and> w' = w \<and> ledger_file v' = ledger_file v \<and>
             (\<forall>e\<in>set new. \<not> is_admission e) \<and>
             (\<forall>drop_folder. fst (check_for_updates drop_folder (w', v'))
                             = fst (check_for_updates drop_folder (w, v)))))))
   \<and> (\<not> dry_run gw \<longrightarrow>
     (case gmail_create_action_file ul io now item (gw, v) of (r, w', v') \<Rightarrow>
       (\<exists>new. effects v' = effects v @ new \<and>
          (\<forall>i<length new. is_admission (new ! i) \<longrightarrow>
             (\<exists>j<i. new ! j = WriteFile (email_action_filename
                 (header_get (the (item_headers item)) (py ''Subject'') (py ''No Subject'')) now)) \<and>
             (\<exists>fields. needs_action v' (email_action_filename
                 (header_get (the (item_headers item)) (py ''Subject'') (py ''No Subject'')) now) = Some (ActionFile fields)) \<and>
             \<not> write_raises io) \<and>
          (processed_ids w' \<noteq> processed_ids gw \<or> ledger_file v' \<noteq> ledger_file v
             \<longrightarrow> (\<exists>i<length new. is_admission (new ! i))) \<and>
          (write_raises io \<longrightarrow>
             r = None \<and> w' = gw \<and> ledger_file v' = ledger_file v \<and>
             needs_action v' =
               (if write_opened io \<and> item_headers item \<noteq> None \<and>
                   item_snippet item \<noteq> None \<and> item_id item \<noteq> None
                then (needs_action v)((email_action_filename
                 (header_get (the (item_headers item)) (py ''Subject'') (py ''No Subject'')) now) \<mapsto> Incomplete)
                else needs_action v) \<and>
             (\<forall>e\<in>set new. \<not> is_admission e) \<and>
             (\<forall>a. fst (gmail_check_for_updates a (w', v'))
                   = fst (gmail_check_for_updates a (gw, v)))))))"
  using process_file_admit [where w = w and ul = ul and io = io and now = now and f = f
      and v = v]
    gmail_create_action_file_admit [where w = gw and ul = ul and io = io and now = now
      and item = item and v = v]
  by blast

theorem admit_after_durable_write_witness:
  "case process_file no_unicode_lower
          no_faults
          \<lparr>year = 2025, month = 3, day = 9, hour = 14, minute = 5, second = 7,
            microsecond = 0\<rparr>
          \<lparr>fname = py ''invoice.pdf'', is_file = True, digest = Some (py ''ab12''), fsize = 10\<rparr>
          (\<lparr>dry_run = False, processed_ids = {}, processed_files = {}\<rparr>,
           \<lparr>needs_action = Map.empty, ledger_file = None, effects = []\<rparr>) of
     (r, w', v') \<Rightarrow>
       processed_files w' = {py ''ab12''} \<and>
       (\<exists>i<length (effects v'). is_admission (effects v' ! i) \<and>
          (\<exists>j<i. effects v' ! j = CopyFile (py ''invoice.pdf'')) \<and>
          (\<exists>j<i. effects v' ! j = WriteFile (file_action_filename (stem (py ''invoice.pdf''))
              \<lparr>year = 2025, month = 3, day = 9, hour = 14, minute = 5, second = 7,
                microsecond = 0\<rparr>)))"
proof -
  let ?io = "no_faults"
  let ?d = "\<lparr>year = 2025, month = 3, day = 9, hour = 14, minute = 5, second = 7,
             microsecond = 0\<rparr>"
  let ?f = "\<lparr>fname = py ''invoice.pdf'', is_file = True, digest = Some (py ''ab12''),
             fsize = 10\<rparr>"
  let ?w = "\<lparr>dry_run = False, processed_ids = {}, processed_files = {}\<rparr>"
  let ?v = "\<lparr>needs_action = Map.empty, ledger_file = None, effects = []\<rparr>"
  have live: "\<not> dry_run ?w" by simp
  obtain r w' v' where p: "process_file no_unicode_lower ?io ?d ?f (?w, ?v) = (r, w', v')"
    by (cases "process_file no_unicode_lower ?io ?d ?f (?w, ?v)") auto
  have "\<not> dry_run ?w" "digest ?f = Some (py ''ab12'')" "py ''ab12'' \<notin> processed_files ?w"
    "\<not> copy_raises ?io" "\<not> write_raises ?io" by simp_all
  from process_file_written [OF this, where ul = no_unicode_lower and now = ?d and v = ?v] p
  have w': "processed_files w' = {py ''ab12''}" by simp
  from admit_after_durable_write
    [where w = ?w and ul = no_unicode_lower and io = ?io and now = ?d and f = ?f and v = ?v,
      THEN conjunct1, THEN mp, OF live] p
  obtain new where e: "effects v' = new"
    and o: "\<forall>i<length new. is_admission (new ! i) \<longrightarrow>
             (\<exists>j<i. new ! j = CopyFile (py ''invoice.pdf'')) \<and>
             (\<exists>j<i. new ! j = WriteFile (file_action_filename (stem (py ''invoice.pdf'')) ?d))"
    and c: "processed_files w' \<noteq> {} \<longrightarrow> (\<exists>i<length new. is_admission (new ! i))"
    by auto
  from c w' obtain i where "i < length new" "is_admission (new ! i)" by auto
  with o e w' have "processed_files w' = {py ''ab12''} \<and>
       (\<exists>i<length (effects v'). is_admission (effects v' ! i) \<and>
          (\<exists>j<i. effects v' ! j = CopyFile (py ''invoice.pdf'')) \<and>
          (\<exists>j<i. effects v' ! j = WriteFile (file_action_filename (stem (py ''invoice.pdf''))
              ?d)))"
    by blast
  with p show ?thesis by simp
qed


section \<open>The orchestration loop\<close>

lemma ralph_while_done:
  "\<not> int k < max_iterations orc \<Longrightarrow> ralph_while orc p c count agent k s = (k, fst s, snd s)"
  by (subst ralph_while.simps) simp

lemma ralph_while_completes:
  assumes "int k < max_iterations orc" "c" "count (Suc k) = 0"
  shows "ralph_while orc p c count agent k (st, tr) =
     (Suc k, st\<lparr>rs_iteration := Suc k, completed := True\<rparr>,
      tr @ [OLog INFO ''Iteration'', OLog INFO ''All files processed - completion detected!''])"
  using assms by (subst ralph_while.simps) (simp add: Let_def)

lemma ralph_while_dry_step:
  assumes "int k < max_iterations orc" "\<not> (c \<and> count (Suc k) = 0)" "orch_dry_run orc"
  shows "ralph_while orc p c count agent k (st, tr) =
     ralph_while orc p c count agent (Suc k)
       (st\<lparr>rs_iteration := Suc k, last_output := py ''Dry run - no output''\<rparr>,
        tr @ [OLog INFO ''Iteration'', OLog INFO ''Running'',
              OLog INFO ''[DRY RUN] Would run Claude Code'', Sleep])"
  using assms by (subst ralph_while.simps) (auto simp: Let_def)

lemma ralph_while_absent_step:
  assumes "int k < max_iterations orc" "\<not> (c \<and> count (Suc k) = 0)" "\<not> orch_dry_run orc"
    "agent (Suc k) = FileNotFoundError e"
  shows "ralph_while orc p c count agent k (st, tr) =
     ralph_while orc p c count agent (Suc k)
       (st\<lparr>rs_iteration := Suc k, last_output := py ''Error: '' @ e\<rparr>,
        tr @ [OLog INFO ''Iteration'', OLog INFO ''Running'', AgentRun (Suc k),
              OLog ERROR ''Error running Claude Code'', StateWrite (Suc k) False, Sleep])"
  using assms by (subst ralph_while.simps) (auto simp: Let_def)

lemma ralph_while_retry_step:
  assumes "int k < max_iterations orc" "\<not> (c \<and> count (Suc k) = 0)"
    "\<forall>out. agent (Suc k) = Returned out \<longrightarrow> \<not> str_in (promise_tag p) out"
  shows "\<exists>lo evs. ralph_while orc p c count agent k (st, tr) =
     ralph_while orc p c count agent (Suc k)
       (st\<lparr>rs_iteration := Suc k, last_output := lo\<rparr>, tr @ evs) \<and>
     agent_invocations evs = (if orch_dry_run orc then 0 else 1)"
proof (cases "orch_dry_run orc")
  case True
  from ralph_while_dry_step
    [where k = k and orc = orc and c = c and count = count and p = p and agent = agent
      and st = st and tr = tr] assms(1,2) True
  show ?thesis by (intro exI conjI) (blast, simp)
next
  case False
  show ?thesis
  proof (cases "agent (Suc k)")
    case (Returned out)
    with assms(3) have np: "\<not> str_in (promise_tag p) out" by simp
    have "ralph_while orc p c count agent k (st, tr) =
       ralph_while orc p c count agent (Suc k)
         (st\<lparr>rs_iteration := Suc k, last_output := last_1000 out\<rparr>,
          tr @ [OLog INFO ''Iteration'', OLog INFO ''Running'', AgentRun (Suc k),
                StateWrite (Suc k) False, Sleep])"
      using assms(1,2) False Returned np by (subst ralph_while.simps) (auto simp: Let_def)
    with False show ?thesis by (intro exI conjI) (assumption, simp)
  next
    case TimeoutExpired
    have "ralph_while orc p c count agent k (st, tr) =
       ralph_while orc p c count agent (Suc k)
         (st\<lparr>rs_iteration := Suc k, last_output := py ''Timeout - retrying''\<rparr>,
          tr @ [OLog INFO ''Iteration'', OLog INFO ''Running'', AgentRun (Suc k),
                OLog WARNING ''Claude Code timed out, retrying...'',
                StateWrite (Suc k) False, Sleep])"
      using assms(1,2) False TimeoutExpired by (subst ralph_while.simps) (auto simp: Let_def)
    with False show ?thesis by (intro exI conjI) (assumption, simp)
  next
    case (FileNotFoundError e)
    from ralph_while_absent_step
      [where k = k and orc = orc and c = c and count = count and p = p and agent = agent
        and st = st and tr = tr and e = e] assms(1,2) False FileNotFoundError
    show ?thesis by (intro exI conjI) (blast, simp)
  next
    case (OtherException e)
    have "ralph_while orc p c count agent k (st, tr) =
       ralph_while orc p c count agent (Suc k)
         (st\<lparr>rs_iteration := Suc k, last_output := py ''Error: '' @ e\<rparr>,
          tr @ [OLog INFO ''Iteration'', OLog INFO ''Running'', AgentRun (Suc k),
                OLog ERROR ''Error running Claude Code'', StateWrite (Suc k) False, Sleep])"
      using assms(1,2) False OtherException by (subst ralph_while.simps) (auto simp: Let_def)
    with False show ?thesis by (intro exI conjI) (assumption, simp)
  qed
qed

lemma ralph_while_exhausts:
  assumes "\<forall>i. \<not> (c \<and> count i = 0)"
    "\<forall>i out. agent i = Returned out \<longrightarrow> \<not> str_in (promise_tag p) out"
  shows "case ralph_while orc p c count agent k (st, tr) of (it, st', tr') \<Rightarrow>
     agent_invocations tr' = agent_invocations tr +
        (if orch_dry_run orc then 0 else nat (max_iterations orc) - k) \<and>
     completed st' = completed st \<and> it = max k (nat (max_iterations orc))"
proof (induction "nat (max_iterations orc) - k" arbitrary: k st tr)
  case 0
  then have "\<not> int k < max_iterations orc" by simp
  from ralph_while_done [OF this] 0 show ?case by (simp add: max_def)
next
  case (Suc n)
  then have lt: "int k < max_iterations orc" by simp
  from assms have a: "\<not> (c \<and> count (Suc k) = 0)"
    "\<forall>out. agent (Suc k) = Returned out \<longrightarrow> \<not> str_in (promise_tag p) out" by simp_all
  from ralph_while_retry_step
    [where k = k and orc = orc and c = c and count = count and p = p and agent = agent
      and st = st and tr = tr] lt a
  obtain lo evs where
    s: "ralph_while orc p c count agent k (st, tr) =
        ralph_while orc p c count agent (Suc k)
          (st\<lparr>rs_iteration := Suc k, last_output := lo\<rparr>, tr @ evs)"
    and e: "agent_invocations evs = (if orch_dry_run orc then 0 else 1)" by blast
  from Suc.hyps(2) have "n = nat (max_iterations orc) - Suc k" by simp
  from Suc.hyps(1) [OF this,
      where st = "st\<lparr>rs_iteration := Suc k, last_output := lo\<rparr>" and tr = "tr @ evs"]
  show ?case using lt e by (simp add: s max_def split: prod.splits) linarith
qed


lemma ralph_loop_exhausts:
  assumes "\<forall>i. \<not> (c \<and> count i = 0)"
    "\<forall>i out. agent i = Returned out \<longrightarrow> \<not> str_in (promise_tag p) out"
  shows "case ralph_loop orc p c count agent of (it, st, tr) \<Rightarrow>
     agent_invocations tr = (if orch_dry_run orc then 0 else nat (max_iterations orc)) \<and>
     outcome st = Exhausted \<and> it = nat (max_iterations orc)"
proof -
  let ?st0 = "\<lparr>rs_iteration = 0, last_output = [], completed = False\<rparr>"
  let ?tr0 = "[OLog INFO ''Starting Ralph Wiggum loop...'']"
  obtain it st tr where w: "ralph_while orc p c count agent 0 (?st0, ?tr0) = (it, st, tr)"
    by (cases "ralph_while orc p c count agent 0 (?st0, ?tr0)") auto
  with ralph_while_exhausts [OF assms, where orc = orc and k = 0 and st = ?st0 and tr = ?tr0]
  have "agent_invocations tr = (if orch_dry_run orc then 0 else nat (max_iterations orc))"
    "\<not> completed st" "it = nat (max_iterations orc)" by simp_all
  with w show ?thesis by (simp add: ralph_loop_def outcome_def)
qed

lemma ralph_loop_completes_first:
  assumes "1 \<le> max_iterations orc" "c" "count (Suc 0) = 0"
  shows "case ralph_loop orc p c count agent of (it, st, tr) \<Rightarrow>
     agent_invocations tr = 0 \<and> outcome st = Completed \<and> it = Suc 0"
proof -
  from assms(1) have "int 0 < max_iterations orc" by simp
  from ralph_while_completes [OF this assms(2), where count = count, OF assms(3)]
  show ?thesis by (simp add: ralph_loop_def outcome_def)
qed

text \<open>
  C3, as stated, fails twice. The orchestrator runs in dry-run mode unless told
  otherwise, and there the agent is never invoked: with \<^verbatim>\<open>max_iterations = 5\<close>, a count
  that is never zero and no completion token, the loop makes no invocation (and ends
  \<open>Exhausted\<close>). And the count is consulted only when \<^verbatim>\<open>check_file_movement\<close> is set:
  without it, a count of zero before the first invocation does not complete the loop,
  which invokes the agent five times and ends \<open>Exhausted\<close>.
\<close>

theorem ralph_loop_budget_counterexample:
  "(case ralph_loop \<lparr>max_iterations = 5, orch_dry_run = True, processes = Map.empty\<rparr>
           (py ''TASK_COMPLETE'') True (\<lambda>i. 1) (\<lambda>i. Returned []) of
      (it, st, tr) \<Rightarrow> agent_invocations tr = 0 \<and> outcome st = Exhausted \<and> it = 5)
   \<and> (case ralph_loop \<lparr>max_iterations = 5, orch_dry_run = False, processes = Map.empty\<rparr>
           (py ''TASK_COMPLETE'') False (\<lambda>i. 0) (\<lambda>i. Returned []) of
      (it, st, tr) \<Rightarrow> agent_invocations tr = 5 \<and> outcome st = Exhausted \<and> it = 5)"
proof -
  have n: "\<forall>i out. (\<lambda>i. Returned []) i = Returned out \<longrightarrow>
      \<not> str_in (promise_tag (py ''TASK_COMPLETE'')) out"
    by (simp add: promise_tag_def py_def)
  have a: "\<forall>i. \<not> (True \<and> (\<lambda>i. 1::nat) i = 0)" by simp
  have b: "\<forall>i. \<not> (False \<and> (\<lambda>i. 0::nat) i = 0)" by simp
  from ralph_loop_exhausts [OF a n,
      where orc = "\<lparr>max_iterations = 5, orch_dry_run = True, processes = Map.empty\<rparr>"]
    ralph_loop_exhausts [OF b n,
      where orc = "\<lparr>max_iterations = 5, orch_dry_run = False, processes = Map.empty\<rparr>"]
  show ?thesis by simp
qed

text \<open>
  C3, amended. With \<^verbatim>\<open>max_iterations = 5\<close>: outside dry-run mode, when the needs-action
  count is never zero and no output of the agent contains the completion token, the loop
  invokes the agent exactly 5 times and ends \<open>Exhausted\<close>; and when
  \<^verbatim>\<open>check_file_movement\<close> is set and the count is zero at the first iteration, the loop
  invokes the agent zero times and ends \<open>Completed\<close>.
\<close>

theorem ralph_loop_budget:
  "max_iterations orc = 5 \<longrightarrow>
     (\<not> orch_dry_run orc \<and> (\<forall>i. count i \<noteq> 0) \<and>
      (\<forall>i out. agent i = Returned out \<longrightarrow> \<not> str_in (promise_tag p) out)
        \<longrightarrow> (case ralph_loop orc p check_file_movement count agent of
               (it, st, tr) \<Rightarrow> agent_invocations tr = 5 \<and> outcome st = Exhausted \<and> it = 5))
   \<and> (check_file_movement \<and> count (Suc 0) = 0
        \<longrightarrow> (case ralph_loop orc p check_file_movement count agent of
               (it, st, tr) \<Rightarrow> agent_invocations tr = 0 \<and> outcome st = Completed \<and> it = Suc 0))"
proof (intro impI conjI)
  assume m: "max_iterations orc = 5"
    and h: "\<not> orch_dry_run orc \<and> (\<forall>i. count i \<noteq> 0) \<and>
      (\<forall>i out. agent i = Returned out \<longrightarrow> \<not> str_in (promise_tag p) out)"
  then have "\<forall>i. \<not> (check_file_movement \<and> count i = 0)"
    "\<forall>i out. agent i = Returned out \<longrightarrow> \<not> str_in (promise_tag p) out" by simp_all
  from ralph_loop_exhausts [OF this, where orc = orc] m h
  show "case ralph_loop orc p check_file_movement count agent of
     (it, st, tr) \<Rightarrow> agent_invocations tr = 5 \<and> outcome st = Exhausted \<and> it = 5"
    by simp
next
  assume m: "max_iterations orc = 5" and h: "check_file_movement \<and> count (Suc 0) = 0"
  from m have "1 \<le> max_iterations orc" by simp
  moreover from h have "check_file_movement" "count (Suc 0) = 0" by simp_all
  ultimately show "case ralph_loop orc p check_file_movement count agent of
     (it, st, tr) \<Rightarrow> agent_invocations tr = 0 \<and> outcome st = Completed \<and> it = Suc 0"
    by (rule ralph_loop_completes_first)
qed

theorem ralph_loop_budget_witness:
  "(case ralph_loop \<lparr>max_iterations = 5, orch_dry_run = False, processes = Map.empty\<rparr>
           (py ''TASK_COMPLETE'') True (\<lambda>i. 2) (\<lambda>i. Returned (py ''working'')) of
      (it, st, tr) \<Rightarrow> agent_invocations tr = 5 \<and> outcome st = Exhausted \<and> it = 5)
   \<and> (case ralph_loop \<lparr>max_iterations = 5, orch_dry_run = False, processes = Map.empty\<rparr>
           (py ''TASK_COMPLETE'') True (\<lambda>i. 0) (\<lambda>i. Returned (py ''working'')) of
      (it, st, tr) \<Rightarrow> agent_invocations tr = 0 \<and> outcome st = Completed \<and> it = Suc 0)"
proof -
  let ?orc = "\<lparr>max_iterations = 5, orch_dry_run = False, processes = Map.empty\<rparr>"
  have m: "max_iterations ?orc = 5" by simp
  have h1: "\<not> orch_dry_run ?orc \<and> (\<forall>i. (\<lambda>i. 2::nat) i \<noteq> 0) \<and>
      (\<forall>i out. (\<lambda>i. Returned (py ''working'')) i = Returned out \<longrightarrow>
         \<not> str_in (promise_tag (py ''TASK_COMPLETE'')) out)"
    by (simp add: promise_tag_def py_def)
  have h2: "True \<and> (\<lambda>i. 0::nat) (Suc 0) = 0" by simp
  note t1 = ralph_loop_budget [where orc = ?orc and count = "\<lambda>i. 2"
      and agent = "\<lambda>i. Returned (py ''working'')" and p = "py ''TASK_COMPLETE''"
      and check_file_movement = True, THEN mp, OF m, THEN conjunct1, THEN mp, OF h1]
  note t2 = ralph_loop_budget [where orc = ?orc and count = "\<lambda>i. 0"
      and agent = "\<lambda>i. Returned (py ''working'')" and p = "py ''TASK_COMPLETE''"
      and check_file_movement = True, THEN mp, OF m, THEN conjunct2, THEN mp, OF h2]
  from t1 t2 show ?thesis by (rule conjI)
qed

text \<open>
  C5. The claim fails on the code. In \<^verbatim>\<open>ralph_loop\<close> a \<^verbatim>\<open>FileNotFoundError\<close> of the agent's
  invocation falls into the handler of every other exception, which logs the error, keeps
  it as the last output and lets the loop go on: with no \<^verbatim>\<open>claude\<close> executable at any
  iteration, \<^verbatim>\<open>max_iterations = 5\<close> and one item waiting, the loop tries to run the agent five
  times, logs the error five times and only then ends \<open>Exhausted\<close>, at iteration 5 and not
  at iteration 1. The sibling entry point \<^verbatim>\<open>trigger_claude_processing\<close> of the same class
  does what the claim asks: on the same absence it logs \<^verbatim>\<open>Claude Code not found\<close> once and
  returns \<^verbatim>\<open>False\<close> at once.
\<close>

theorem ralph_loop_agent_absent_retries:
  "(case ralph_loop \<lparr>max_iterations = 5, orch_dry_run = False, processes = Map.empty\<rparr>
          (py ''TASK_COMPLETE'') True (\<lambda>i. 1)
          (\<lambda>i. FileNotFoundError (py ''No such file or directory: claude'')) of
     (it, st, tr) \<Rightarrow>
       agent_invocations tr = 5 \<and> outcome st = Exhausted \<and> it = 5 \<and>
       length (filter (\<lambda>e. e = OLog ERROR ''Error running Claude Code'') tr) = 5 \<and>
       last_output st = py ''Error: No such file or directory: claude'')
   \<and> trigger_claude_processing
         \<lparr>max_iterations = 5, orch_dry_run = False, processes = Map.empty\<rparr> VersionNotFound []
       = (False, [OLog ERROR ''Claude Code not found''])"
proof -
  let ?orc = "\<lparr>max_iterations = 5, orch_dry_run = False, processes = Map.empty\<rparr>"
  let ?e = "py ''No such file or directory: claude''"
  let ?w = "ralph_while ?orc (py ''TASK_COMPLETE'') True (\<lambda>i. 1) (\<lambda>i. FileNotFoundError ?e)"
  have step: "?w k (st, tr) =
      ?w (Suc k) (st\<lparr>rs_iteration := Suc k, last_output := py ''Error: '' @ ?e\<rparr>,
          tr @ [OLog INFO ''Iteration'', OLog INFO ''Running'', AgentRun (Suc k),
                OLog ERROR ''Error running Claude Code'', StateWrite (Suc k) False, Sleep])"
    if "k < 5" for k st tr
    using that
      ralph_while_absent_step [where k = k and orc = ?orc and c = True and count = "\<lambda>i. 1"
        and p = "py ''TASK_COMPLETE''" and agent = "\<lambda>i. FileNotFoundError ?e" and st = st
        and tr = tr and e = ?e]
    by simp
  have stop: "?w 5 (st, tr) = (5, st, tr)" for st tr
    using ralph_while_done [where k = 5 and orc = ?orc and p = "py ''TASK_COMPLETE''"
        and c = True and count = "\<lambda>i. 1" and agent = "\<lambda>i. FileNotFoundError ?e" and s = "(st, tr)"]
    by simp
  have n: "Suc 0 = 1" "Suc 1 = 2" "Suc 2 = 3" "Suc 3 = 4" "Suc 4 = 5" by simp_all
  have "(0::nat) < 5" "(1::nat) < 5" "(2::nat) < 5" "(3::nat) < 5" "(4::nat) < 5" by simp_all
  note steps = this [THEN step]
  have loop: "case ralph_loop ?orc (py ''TASK_COMPLETE'') True (\<lambda>i. 1) (\<lambda>i. FileNotFoundError ?e)
      of (it, st, tr) \<Rightarrow>
       agent_invocations tr = 5 \<and> outcome st = Exhausted \<and> it = 5 \<and>
       length (filter (\<lambda>e. e = OLog ERROR ''Error running Claude Code'') tr) = 5 \<and>
       last_output st = py ''Error: No such file or directory: claude''"
    unfolding ralph_loop_def
    by (simp only: steps n stop) (simp add: outcome_def py_def)
  have "trigger_claude_processing ?orc VersionNotFound []
       = (False, [OLog ERROR ''Claude Code not found''])"
    by (simp add: trigger_claude_processing_def)
  with loop show ?thesis by (rule conjI)
qed


section \<open>An unreadable file in a polling pass\<close>

lemma scan_drop_folder_all:
  assumes "\<forall>f\<in>set fs. is_file f \<and> \<not> startswith_dot (fname f) \<and> digest f \<noteq> None \<and>
             the (digest f) \<notin> P"
  shows "scan_drop_folder P fs = Some fs"
  using assms by (induction fs) auto

lemma scan_drop_folder_unreadable:
  assumes "f \<in> set fs" "is_file f" "\<not> startswith_dot (fname f)" "digest f = None"
  shows "scan_drop_folder P fs = None"
  using assms by (induction fs) (auto split: option.splits)

text \<open>
  One regular entry of the drop folder that cannot be read makes the poll return the
  empty list: nothing of the pass is processed, whatever else the folder holds.
\<close>

lemma run_cycle_unreadable:
  assumes "f \<in> set fs" "is_file f" "\<not> startswith_dot (fname f)" "digest f = None"
  shows "run_cycle ul io clock (Some fs) (w, v)
         = (w, emit (Log DEBUG ''No new items found'')
                 (emit (Log ERROR ''Error checking drop folder'') v))"
  by (simp add: run_cycle_def check_for_updates_def scan_drop_folder_unreadable [OF assms])

lemma run_cycle_live:
  assumes "\<forall>f\<in>set fs. is_file f \<and> \<not> startswith_dot (fname f) \<and> digest f \<noteq> None \<and>
             the (digest f) \<notin> processed_files w"
    and "fs \<noteq> []"
  shows "run_cycle ul io clock (Some fs) (w, v)
         = process_items ul io clock 0 fs (w, emit (Log INFO ''Found new item(s)'') v)"
  using assms(2) by (simp add: run_cycle_def check_for_updates_def scan_drop_folder_all [OF assms(1)])

text \<open>The whole state after one item is processed with no fault.\<close>

lemma process_file_success:
  assumes "\<not> dry_run w" "digest f = Some h" "h \<notin> processed_files w"
  shows "\<exists>fields. process_file ul no_faults now f (w, v) =
     (Some (fname f), w\<lparr>processed_files := insert h (processed_files w)\<rparr>,
      v\<lparr>needs_action := (needs_action v)(fname f \<mapsto> Payload h,
           file_action_filename (stem (fname f)) now \<mapsto> ActionFile fields),
        ledger_file := Some (insert h (processed_files w)),
        effects := effects v @
          [CopyFile (fname f), Log INFO ''Copied file'',
           WriteFile (file_action_filename (stem (fname f)) now),
           Log INFO ''Created action file'', LedgerAdd h, LedgerSave,
           Log DEBUG ''Saved processed file hashes'', Log DEBUG ''Logged action'']\<rparr>)"
proof -
  from get_file_metadata_some [OF assms(2)] obtain md where "get_file_metadata ul f = Some md"
    by blast
  with assms have "process_file ul no_faults now f (w, v) =
     (Some (fname f), w\<lparr>processed_files := insert h (processed_files w)\<rparr>,
      v\<lparr>needs_action := (needs_action v)(fname f \<mapsto> Payload h,
           file_action_filename (stem (fname f)) now \<mapsto>
             file_content md (get_priority ul (fname f @ py '' '' @ md_file_type md)) h),
        ledger_file := Some (insert h (processed_files w)),
        effects := effects v @
          [CopyFile (fname f), Log INFO ''Copied file'',
           WriteFile (file_action_filename (stem (fname f)) now),
           Log INFO ''Created action file'', LedgerAdd h, LedgerSave,
           Log DEBUG ''Saved processed file hashes'', Log DEBUG ''Logged action'']\<rparr>)"
    by (simp add: process_file_def Let_def emit_def log_action_def save_processed_files_def)
  then show ?thesis unfolding file_content_def by (rule exI)
qed

text \<open>One turn of the loop over the items of a pass, outside dry-run mode.\<close>

lemma process_items_created:
  assumes "\<not> dry_run w"
    and "process_file ul (io (fname item)) (clock k) item (w, v) = (Some p, w', v')"
  shows "process_items ul io clock k (item # items) (w, v)
         = process_items ul io clock (Suc k) items (w', emit (Log INFO ''Created action file'') v')"
  using assms by simp

lemma process_items_failed:
  assumes "\<not> dry_run w"
    and "process_file ul (io (fname item)) (clock k) item (w, v) = (None, w', v')"
  shows "process_items ul io clock k (item # items) (w, v)
         = process_items ul io clock (Suc k) items (w', v')"
  using assms by simp

text \<open>
  C4. The claim fails on the code for its own example, the unreadable file. The poll
  \<^verbatim>\<open>check_for_updates\<close> hashes every entry of the drop folder inside one \<^verbatim>\<open>try\<close> block, so
  the entry that cannot be read aborts the listing of the pass. With the drop folder
  \<^verbatim>\<open>a.txt\<close>, \<^verbatim>\<open>b.txt\<close>, \<^verbatim>\<open>c.txt\<close>, of which \<^verbatim>\<open>b.txt\<close> cannot be read, outside dry-run mode and
  with no other fault, one pass leaves \<^verbatim>\<open>Needs_Action\<close> empty, admits nothing and logs one
  error for the folder: none of the two valid candidates is materialised. The same pass
  over \<^verbatim>\<open>a.txt\<close> and \<^verbatim>\<open>c.txt\<close> alone materialises both, each with its payload and its own
  action file. The per-item path keeps the failure to the item, as the claim asks:
  \<^verbatim>\<open>process_file\<close> on \<^verbatim>\<open>b.txt\<close> logs one error (at level \<^verbatim>\<open>ERROR\<close>) and returns \<^verbatim>\<open>None\<close> with
  the watcher unchanged, and in a pass where writing the action file of \<^verbatim>\<open>a.txt\<close> raises,
  \<^verbatim>\<open>c.txt\<close> is still materialised and admitted.
\<close>

theorem poll_cycle_unreadable_file:
  "(case run_cycle no_unicode_lower (\<lambda>n. no_faults)
          (\<lambda>k. \<lparr>year = 2025, month = 3, day = 9, hour = 14, minute = 5, second = 7,
                 microsecond = 0\<rparr>)
          (Some [\<lparr>fname = py ''a.txt'', is_file = True, digest = Some (py ''ha''), fsize = 1\<rparr>,
                 \<lparr>fname = py ''b.txt'', is_file = True, digest = None, fsize = 2\<rparr>,
                 \<lparr>fname = py ''c.txt'', is_file = True, digest = Some (py ''hc''), fsize = 3\<rparr>])
          (\<lparr>dry_run = False, processed_ids = {}, processed_files = {}\<rparr>,
           \<lparr>needs_action = Map.empty, ledger_file = None, effects = []\<rparr>) of
      (w', v') \<Rightarrow>
        needs_action v' = Map.empty \<and> processed_files w' = {} \<and> ledger_file v' = None \<and>
        effects v' = [Log ERROR ''Error checking drop folder'', Log DEBUG ''No new items found''])
   \<and> (case run_cycle no_unicode_lower (\<lambda>n. no_faults)
          (\<lambda>k. \<lparr>year = 2025, month = 3, day = 9, hour = 14, minute = 5, second = 7,
                 microsecond = 0\<rparr>)
          (Some [\<lparr>fname = py ''a.txt'', is_file = True, digest = Some (py ''ha''), fsize = 1\<rparr>,
                 \<lparr>fname = py ''c.txt'', is_file = True, digest = Some (py ''hc''), fsize = 3\<rparr>])
          (\<lparr>dry_run = False, processed_ids = {}, processed_files = {}\<rparr>,
           \<lparr>needs_action = Map.empty, ledger_file = None, effects = []\<rparr>) of
      (w', v') \<Rightarrow>
        (\<exists>fa fc. needs_action v' =
           [py ''a.txt'' \<mapsto> Payload (py ''ha''),
            py ''FILE_a_20250309_140507.md'' \<mapsto> ActionFile fa,
            py ''c.txt'' \<mapsto> Payload (py ''hc''),
            py ''FILE_c_20250309_140507.md'' \<mapsto> ActionFile fc]) \<and>
        processed_files w' = {py ''ha'', py ''hc''} \<and>
        ledger_file v' = Some {py ''ha'', py ''hc''} \<and>
        record_writes (effects v') = 2 \<and> processing_errors (effects v') = 0)
   \<and> process_file no_unicode_lower no_faults
        \<lparr>year = 2025, month = 3, day = 9, hour = 14, minute = 5, second = 7, microsecond = 0\<rparr>
        \<lparr>fname = py ''b.txt'', is_file = True, digest = None, fsize = 2\<rparr>
        (\<lparr>dry_run = False, processed_ids = {}, processed_files = {}\<rparr>,
         \<lparr>needs_action = Map.empty, ledger_file = None, effects = []\<rparr>)
      = (None, \<lparr>dry_run = False, processed_ids = {}, processed_files = {}\<rparr>,
         \<lparr>needs_action = Map.empty, ledger_file = None,
           effects = [Log ERROR ''Error processing file'']\<rparr>)
   \<and> (case run_cycle no_unicode_lower
          (\<lambda>n. if n = py ''a.txt'' then no_faults\<lparr>write_raises := True\<rparr> else no_faults)
          (\<lambda>k. \<lparr>year = 2025, month = 3, day = 9, hour = 14, minute = 5, second = 7,
                 microsecond = 0\<rparr>)
          (Some [\<lparr>fname = py ''a.txt'', is_file = True, digest = Some (py ''ha''), fsize = 1\<rparr>,
                 \<lparr>fname = py ''c.txt'', is_file = True, digest = Some (py ''hc''), fsize = 3\<rparr>])
          (\<lparr>dry_run = False, processed_ids = {}, processed_files = {}\<rparr>,
           \<lparr>needs_action = Map.empty, ledger_file = None, effects = []\<rparr>) of
      (w', v') \<Rightarrow>
        (\<exists>fc. needs_action v' =
           [py ''a.txt'' \<mapsto> Payload (py ''ha''),
            py ''c.txt'' \<mapsto> Payload (py ''hc''),
            py ''FILE_c_20250309_140507.md'' \<mapsto> ActionFile fc]) \<and>
        processed_files w' = {py ''hc''} \<and> ledger_file v' = Some {py ''hc''} \<and>
        record_writes (effects v') = 1 \<and> processing_errors (effects v') = 1)"
proof -
  let ?d = "\<lparr>year = 2025, month = 3, day = 9, hour = 14, minute = 5, second = 7,
             microsecond = 0\<rparr>"
  let ?a = "\<lparr>fname = py ''a.txt'', is_file = True, digest = Some (py ''ha''), fsize = 1\<rparr>"
  let ?b = "\<lparr>fname = py ''b.txt'', is_file = True, digest = None, fsize = 2\<rparr>"
  let ?c = "\<lparr>fname = py ''c.txt'', is_file = True, digest = Some (py ''hc''), fsize = 3\<rparr>"
  let ?w = "\<lparr>dry_run = False, processed_ids = {}, processed_files = {}\<rparr>"
  let ?v = "\<lparr>needs_action = Map.empty, ledger_file = None, effects = []\<rparr>"
  let ?io = "\<lambda>n. if n = py ''a.txt'' then no_faults\<lparr>write_raises := True\<rparr> else no_faults"
  have na: "file_action_filename (stem (py ''a.txt'')) ?d = py ''FILE_a_20250309_140507.md''"
    and nc: "file_action_filename (stem (py ''c.txt'')) ?d = py ''FILE_c_20250309_140507.md''"
    by (simp_all add: stem_def file_action_filename_def strftime_def dec4_def
        dec2_def digit_def py_def sanitize_filename_def invalid_chars_def replace_char_def)
  have ne: "py ''ha'' \<noteq> py ''hc''" "py ''a.txt'' \<noteq> py ''c.txt''"
    "py ''FILE_a_20250309_140507.md'' \<noteq> py ''c.txt''"
    "py ''FILE_a_20250309_140507.md'' \<noteq> py ''FILE_c_20250309_140507.md''"
    "py ''a.txt'' \<noteq> py ''FILE_c_20250309_140507.md''"
    "py ''c.txt'' \<noteq> py ''FILE_c_20250309_140507.md''"
    "py ''a.txt'' \<noteq> py ''FILE_a_20250309_140507.md''"
    by (simp_all add: py_def)
  have dot: "\<not> startswith_dot (py ''a.txt'')" "\<not> startswith_dot (py ''b.txt'')"
    "\<not> startswith_dot (py ''c.txt'')"
    by (simp_all add: startswith_dot_def py_def)
  have one: "case run_cycle no_unicode_lower (\<lambda>n. no_faults) (\<lambda>k. ?d) (Some [?a, ?b, ?c])
      (?w, ?v) of
      (w', v') \<Rightarrow>
        needs_action v' = Map.empty \<and> processed_files w' = {} \<and> ledger_file v' = None \<and>
        effects v' = [Log ERROR ''Error checking drop folder'', Log DEBUG ''No new items found'']"
  proof -
    have "?b \<in> set [?a, ?b, ?c]" "is_file ?b" "\<not> startswith_dot (fname ?b)" "digest ?b = None"
      using dot by simp_all
    from run_cycle_unreadable [OF this] show ?thesis by (simp add: emit_def)
  qed
  have live: "run_cycle no_unicode_lower io (\<lambda>k. ?d) (Some [?a, ?c]) (?w, ?v)
      = process_items no_unicode_lower io (\<lambda>k. ?d) 0 [?a, ?c]
          (?w, emit (Log INFO ''Found new item(s)'') ?v)" for io
  proof -
    have "\<forall>f\<in>set [?a, ?c]. is_file f \<and> \<not> startswith_dot (fname f) \<and> digest f \<noteq> None \<and>
             the (digest f) \<notin> processed_files ?w"
      using dot by simp
    from run_cycle_live [OF this] show ?thesis by simp
  qed
  have two: "case run_cycle no_unicode_lower (\<lambda>n. no_faults) (\<lambda>k. ?d) (Some [?a, ?c])
      (?w, ?v) of
      (w', v') \<Rightarrow>
        (\<exists>fa fc. needs_action v' =
           [py ''a.txt'' \<mapsto> Payload (py ''ha''),
            py ''FILE_a_20250309_140507.md'' \<mapsto> ActionFile fa,
            py ''c.txt'' \<mapsto> Payload (py ''hc''),
            py ''FILE_c_20250309_140507.md'' \<mapsto> ActionFile fc]) \<and>
        processed_files w' = {py ''ha'', py ''hc''} \<and>
        ledger_file v' = Some {py ''ha'', py ''hc''} \<and>
        record_writes (effects v') = 2 \<and> processing_errors (effects v') = 0"
  proof -
    let ?v0 = "emit (Log INFO ''Found new item(s)'') ?v"
    have "\<not> dry_run ?w" "digest ?a = Some (py ''ha'')" "py ''ha'' \<notin> processed_files ?w"
      by simp_all
    from process_file_success [OF this, where ul = no_unicode_lower and now = ?d and v = ?v0]
    obtain fa where p1: "process_file no_unicode_lower no_faults ?d ?a (?w, ?v0) =
       (Some (py ''a.txt''), ?w\<lparr>processed_files := {py ''ha''}\<rparr>,
        ?v0\<lparr>needs_action := [py ''a.txt'' \<mapsto> Payload (py ''ha''),
               py ''FILE_a_20250309_140507.md'' \<mapsto> ActionFile fa],
          ledger_file := Some {py ''ha''},
          effects := effects ?v0 @
            [CopyFile (py ''a.txt''), Log INFO ''Copied file'',
             WriteFile (py ''FILE_a_20250309_140507.md''),
             Log INFO ''Created action file'', LedgerAdd (py ''ha''), LedgerSave,
             Log DEBUG ''Saved processed file hashes'', Log DEBUG ''Logged action'']\<rparr>)"
      (is "_ = (_, ?w1, ?v1)")
      by (auto simp: na)
    let ?v1' = "emit (Log INFO ''Created action file'') ?v1"
    have "\<not> dry_run ?w1" "digest ?c = Some (py ''hc'')" "py ''hc'' \<notin> processed_files ?w1"
      using ne by simp_all
    from process_file_success [OF this, where ul = no_unicode_lower and now = ?d and v = ?v1']
    obtain fc where p2: "process_file no_unicode_lower no_faults ?d ?c (?w1, ?v1') =
       (Some (py ''c.txt''), ?w1\<lparr>processed_files := {py ''hc'', py ''ha''}\<rparr>,
        ?v1'\<lparr>needs_action := (needs_action ?v1')(py ''c.txt'' \<mapsto> Payload (py ''hc''),
               py ''FILE_c_20250309_140507.md'' \<mapsto> ActionFile fc),
          ledger_file := Some {py ''hc'', py ''ha''},
          effects := effects ?v1' @
            [CopyFile (py ''c.txt''), Log INFO ''Copied file'',
             WriteFile (py ''FILE_c_20250309_140507.md''),
             Log INFO ''Created action file'', LedgerAdd (py ''hc''), LedgerSave,
             Log DEBUG ''Saved processed file hashes'', Log DEBUG ''Logged action'']\<rparr>)"
      by (auto simp: nc)
    have "\<not> dry_run ?w" by simp
    note s1 = process_items_created [where io = "\<lambda>n. no_faults" and clock = "\<lambda>k. ?d"
        and k = 0 and items = "[?c]", OF this p1]
    have "\<not> dry_run ?w1" by simp
    note s2 = process_items_created [where io = "\<lambda>n. no_faults" and clock = "\<lambda>k. ?d"
        and k = "Suc 0" and items = "[]", OF this p2]
    show ?thesis
      by (simp only: live s1 s2 process_items.simps(1))
        (auto simp: emit_def record_writes_def processing_errors_def)
  qed
  have three: "process_file no_unicode_lower no_faults ?d ?b (?w, ?v)
      = (None, ?w, \<lparr>needs_action = Map.empty, ledger_file = None,
           effects = [Log ERROR ''Error processing file'']\<rparr>)"
    by (simp add: process_file_def emit_def)
  have four: "case run_cycle no_unicode_lower ?io (\<lambda>k. ?d) (Some [?a, ?c]) (?w, ?v) of
      (w', v') \<Rightarrow>
        (\<exists>fc. needs_action v' =
           [py ''a.txt'' \<mapsto> Payload (py ''ha''),
            py ''c.txt'' \<mapsto> Payload (py ''hc''),
            py ''FILE_c_20250309_140507.md'' \<mapsto> ActionFile fc]) \<and>
        processed_files w' = {py ''hc''} \<and> ledger_file v' = Some {py ''hc''} \<and>
        record_writes (effects v') = 1 \<and> processing_errors (effects v') = 1"
  proof -
    let ?v0 = "emit (Log INFO ''Found new item(s)'') ?v"
    let ?v1 = "?v0\<lparr>needs_action := [py ''a.txt'' \<mapsto> Payload (py ''ha'')],
        effects := effects ?v0 @ [CopyFile (py ''a.txt''), Log INFO ''Copied file'',
                                Log ERROR ''Error processing file'']\<rparr>"
    have "\<not> dry_run ?w" "digest ?a = Some (py ''ha'')" "py ''ha'' \<notin> processed_files ?w"
      "\<not> copy_raises (no_faults\<lparr>write_raises := True\<rparr>)"
      "write_raises (no_faults\<lparr>write_raises := True\<rparr>)"
      by (simp_all add: no_faults_def)
    from process_file_write_raises [OF this, where ul = no_unicode_lower and now = ?d
        and v = ?v0]
    have p1: "process_file no_unicode_lower (no_faults\<lparr>write_raises := True\<rparr>) ?d ?a (?w, ?v0)
       = (None, ?w, ?v1)"
      by (simp add: no_faults_def)
    have "\<not> dry_run ?w" "digest ?c = Some (py ''hc'')" "py ''hc'' \<notin> processed_files ?w"
      by simp_all
    from process_file_success [OF this, where ul = no_unicode_lower and now = ?d and v = ?v1]
    obtain fc where p2: "process_file no_unicode_lower no_faults ?d ?c (?w, ?v1) =
       (Some (py ''c.txt''), ?w\<lparr>processed_files := {py ''hc''}\<rparr>,
        ?v1\<lparr>needs_action := (needs_action ?v1)(py ''c.txt'' \<mapsto> Payload (py ''hc''),
               py ''FILE_c_20250309_140507.md'' \<mapsto> ActionFile fc),
          ledger_file := Some {py ''hc''},
          effects := effects ?v1 @
            [CopyFile (py ''c.txt''), Log INFO ''Copied file'',
             WriteFile (py ''FILE_c_20250309_140507.md''),
             Log INFO ''Created action file'', LedgerAdd (py ''hc''), LedgerSave,
             Log DEBUG ''Saved processed file hashes'', Log DEBUG ''Logged action'']\<rparr>)"
      by (auto simp: nc)
    have q1: "process_file no_unicode_lower (?io (fname ?a)) ?d ?a (?w, ?v0) = (None, ?w, ?v1)"
      using p1 by simp
    have q2: "process_file no_unicode_lower (?io (fname ?c)) ?d ?c (?w, ?v1) =
       (Some (py ''c.txt''), ?w\<lparr>processed_files := {py ''hc''}\<rparr>,
        ?v1\<lparr>needs_action := (needs_action ?v1)(py ''c.txt'' \<mapsto> Payload (py ''hc''),
               py ''FILE_c_20250309_140507.md'' \<mapsto> ActionFile fc),
          ledger_file := Some {py ''hc''},
          effects := effects ?v1 @
            [CopyFile (py ''c.txt''), Log INFO ''Copied file'',
             WriteFile (py ''FILE_c_20250309_140507.md''),
             Log INFO ''Created action file'', LedgerAdd (py ''hc''), LedgerSave,
             Log DEBUG ''Saved processed file hashes'', Log DEBUG ''Logged action'']\<rparr>)"
      using p2 ne by simp
    have l: "\<not> dry_run ?w" by simp
    note s1 = process_items_failed [where io = ?io and clock = "\<lambda>k. ?d"
        and k = 0 and items = "[?c]", OF l q1]
    note s2 = process_items_created [where io = ?io and clock = "\<lambda>k. ?d"
        and k = "Suc 0" and items = "[]", OF l q2]
    show ?thesis
      by (simp only: live s1 s2 process_items.simps(1))
        (auto simp: emit_def record_writes_def processing_errors_def)
  qed
  from one two three four show ?thesis by (intro conjI)
qed

end
